(* ===== verification/Prelude.thy ===== *)
theory Prelude
  imports Complex_Main "HOL-Library.Code_Target_Numeral"
begin

text \<open>
  Shared vocabulary of the development.  The program is TypeScript running in a browser:
  its \<open>bigint\<close> values are unbounded integers (\<open>int\<close>), its strings are modelled as
  \<open>string\<close> (the characters it produces are all ASCII), and a nullable address
  \<open>string | null\<close> is a \<open>string option\<close>.  The collection \<open>eval_simps\<close> gathers,
  from every theory, the equations with which \<open>simp\<close> evaluates the model on concrete
  values (the witnesses and the concrete claims); on large numbers this is much faster than
  \<open>code_simp\<close>, since the simplifier computes with binary numerals directly.
\<close>

named_theorems eval_simps "rules with which simp evaluates the model on concrete values"

type_synonym bigint = int
type_synonym address = string

text \<open>
  JavaScript truthiness of a nullable string, as in \<open>if (!address) return;\<close>:
  both \<open>null\<close> and the empty string are falsy.
\<close>

definition falsy_address :: "address option \<Rightarrow> bool" where
  "falsy_address a = (case a of None \<Rightarrow> True | Some s \<Rightarrow> s = [])"

lemma falsy_address_simps [simp]:
  "falsy_address None"
  "falsy_address (Some s) \<longleftrightarrow> s = []"
  by (simp_all add: falsy_address_def)

abbreviation truthy :: "string option \<Rightarrow> bool" where
  "truthy s \<equiv> \<not> falsy_address s"

declare Let_def [eval_simps]

subsection \<open>Numbers\<close>

text \<open>Bounds by a power of a numeral carry over from \<open>nat\<close> to any ordered semiring.\<close>

lemma of_nat_less_numeral_pow:
  "(m::nat) < numeral b ^ k \<Longrightarrow> (of_nat m :: 'a :: linordered_semidom) < numeral b ^ k"
  by (metis of_nat_less_iff of_nat_numeral of_nat_power)

lemma numeral_pow_le_of_nat:
  "numeral b ^ k \<le> (m::nat) \<Longrightarrow> (numeral b ^ k :: 'a :: linordered_semidom) \<le> of_nat m"
  by (metis of_nat_le_iff of_nat_numeral of_nat_power)

subsection \<open>Lists\<close>

lemma replicate_numeral [eval_simps]: "replicate (numeral k) x = x # replicate (pred_numeral k) x"
  by (simp add: numeral_eq_Suc)

lemma rev_dropWhile_append_nonmatching:
  assumes "\<not> P c"
  shows "rev (dropWhile P (rev (xs @ c # ys))) =
         (if \<forall>y\<in>set ys. P y then xs @ [c] else xs @ c # rev (dropWhile P (rev ys)))"
proof (cases "\<forall>y\<in>set ys. P y")
  case True
  then have "dropWhile P (rev ys @ c # rev xs) = c # rev xs"
    using assms True by (subst dropWhile_append2) auto
  with True show ?thesis by simp
next
  case False
  then obtain y where "y \<in> set (rev ys)" "\<not> P y" by auto
  then have "dropWhile P (rev ys @ c # rev xs) = dropWhile P (rev ys) @ c # rev xs"
    by (auto simp: dropWhile_append1)
  with False show ?thesis by simp
qed

end
