(* ===== verification/Decimal.thy ===== *)
theory Decimal
  imports Prelude
begin

text \<open>
  Decimal strings.  The program prints integers with JavaScript's \<open>toString\<close>
  (inside \<open>Number.prototype.toFixed\<close> and viem's \<open>formatUnits\<close>) and post-processes the
  result with the regular-expression replacements \<open>/0+$/\<close> and \<open>/\.$/\<close>
  (\<open>formatSol\<close>, SignedInScreen.tsx line 131).  This theory models those string operations
  and defines \<open>parse_decimal\<close>, the reading of a decimal string as the rational number it
  denotes, which is how the specification's "denotes exactly B / 10^18" is stated.
\<close>

subsection \<open>Digits\<close>

definition digit_char :: "nat \<Rightarrow> char" where
  "digit_char d = char_of (48 + d)"

definition is_digit :: "char \<Rightarrow> bool" where
  "is_digit c = (48 \<le> (of_char c :: nat) \<and> (of_char c :: nat) \<le> 57)"

definition digit_val :: "char \<Rightarrow> nat" where
  "digit_val c = of_char c - 48"

lemma of_char_digit_char: "d < 10 \<Longrightarrow> of_char (digit_char d) = 48 + d"
  by (simp add: digit_char_def)

lemma digit_val_char [simp]: "d < 10 \<Longrightarrow> digit_val (digit_char d) = d"
  by (simp add: digit_val_def of_char_digit_char)

lemma is_digit_char [simp]: "d < 10 \<Longrightarrow> is_digit (digit_char d)"
  by (simp add: is_digit_def of_char_digit_char)

text \<open>The ten digit characters, for evaluating printed numbers with \<open>simp\<close>.\<close>

lemma digit_char_eval [simp, eval_simps]:
  "digit_char 0 = CHR ''0''" "digit_char 1 = CHR ''1''" "digit_char (Suc 0) = CHR ''1''"
  "digit_char 2 = CHR ''2''"
  "digit_char 3 = CHR ''3''" "digit_char 4 = CHR ''4''" "digit_char 5 = CHR ''5''"
  "digit_char 6 = CHR ''6''" "digit_char 7 = CHR ''7''" "digit_char 8 = CHR ''8''"
  "digit_char 9 = CHR ''9''"
  by (rule of_char_eq_iff [where 'a = nat, THEN iffD1], simp add: of_char_digit_char)+

lemma digit_char_zero_iff:
  assumes "d < 10" shows "digit_char d = CHR ''0'' \<longleftrightarrow> d = 0"
proof -
  have "digit_char d = CHR ''0'' \<longleftrightarrow> (of_char (digit_char d) :: nat) = of_char CHR ''0''"
    by (rule of_char_eq_iff [symmetric])
  also have "\<dots> \<longleftrightarrow> d = 0"
    using assms by (simp add: of_char_digit_char)
  finally show ?thesis .
qed

lemma is_digit_not_dot [simp]: "\<not> is_digit CHR ''.''"
  by (simp add: is_digit_def)

lemma is_digit_not_e [simp]: "\<not> is_digit CHR ''e''"
  by (simp add: is_digit_def)

lemma is_digit_not_minus [simp]: "\<not> is_digit CHR ''-''"
  by (simp add: is_digit_def)

lemma is_digit_zero [simp]: "is_digit CHR ''0''" and digit_val_zero [simp]: "digit_val CHR ''0'' = 0"
  by (simp_all add: is_digit_def digit_val_def)

subsection \<open>Printing a natural number: \<open>toString\<close>\<close>

text \<open>
  \<open>BigInt.prototype.toString()\<close>, and \<open>Number.prototype.toString()\<close> on an integral
  value below \<open>10^21\<close>, print the shortest decimal digit string, without sign for
  non-negative values.
\<close>

fun show_nat :: "nat \<Rightarrow> string" where
  "show_nat n = (if n < 10 then [digit_char n] else show_nat (n div 10) @ [digit_char (n mod 10)])"

declare show_nat.simps [simp del]

definition show_int :: "bigint \<Rightarrow> string" where
  "show_int i = (if i < 0 then CHR ''-'' # show_nat (nat (- i)) else show_nat (nat i))"

subsection \<open>Reading digits back\<close>

fun read_digits :: "nat \<Rightarrow> string \<Rightarrow> nat" where
  "read_digits acc [] = acc"
| "read_digits acc (c # cs) = read_digits (10 * acc + digit_val c) cs"

definition read_nat :: "string \<Rightarrow> nat" where
  "read_nat ds = read_digits 0 ds"

lemma read_digits_acc: "read_digits acc cs = acc * 10 ^ length cs + read_digits 0 cs"
proof (induction cs arbitrary: acc)
  case Nil
  then show ?case by simp
next
  case (Cons c cs)
  have "read_digits acc (c # cs) = read_digits (10 * acc + digit_val c) cs"
    by (rule read_digits.simps)
  also have "\<dots> = (10 * acc + digit_val c) * 10 ^ length cs + read_digits 0 cs"
    by (rule Cons.IH)
  also have "read_digits 0 (c # cs) = digit_val c * 10 ^ length cs + read_digits 0 cs"
    using Cons.IH [of "digit_val c"] by (simp only: read_digits.simps mult_0_right add_0)
  ultimately show ?case by (simp add: algebra_simps)
qed

lemma read_nat_Nil [simp]: "read_nat [] = 0"
  by (simp add: read_nat_def)

lemma read_digits_append: "read_digits acc (xs @ ys) = read_digits (read_digits acc xs) ys"
  by (induction xs arbitrary: acc) simp_all

lemma read_nat_append: "read_nat (xs @ ys) = read_nat xs * 10 ^ length ys + read_nat ys"
  unfolding read_nat_def read_digits_append by (rule read_digits_acc)

lemma read_nat_snoc: "read_nat (xs @ [c]) = 10 * read_nat xs + digit_val c"
  unfolding read_nat_append by (simp add: read_nat_def)

lemma read_nat_zeros [simp]: "read_nat (replicate k CHR ''0'') = 0"
  by (induction k) (simp_all add: read_nat_def)

lemma read_nat_zeros_prefix [simp]: "read_nat (replicate k CHR ''0'' @ ds) = read_nat ds"
  by (simp add: read_nat_append)

lemma read_nat_zeros_suffix: "read_nat (ds @ replicate k CHR ''0'') = read_nat ds * 10 ^ k"
  by (simp add: read_nat_append)

text \<open>The round trip: reading what \<open>toString\<close> printed gives the number back.\<close>

lemma read_show_nat [simp]: "read_nat (show_nat n) = n"
proof (induction n rule: show_nat.induct)
  case (1 n)
  show ?case
  proof (cases "n < 10")
    case True
    then show ?thesis by (simp add: show_nat.simps [of n] read_nat_def)
  next
    case False
    with "1.IH" show ?thesis by (simp add: show_nat.simps [of n] read_nat_snoc)
  qed
qed

lemma show_nat_digits: "c \<in> set (show_nat n) \<Longrightarrow> is_digit c"
proof (induction n rule: show_nat.induct)
  case (1 n)
  then show ?case
    by (cases "n < 10") (auto simp: show_nat.simps [of n])
qed

lemma show_nat_not_Nil [simp]: "show_nat n \<noteq> []"
  by (subst show_nat.simps) simp

subsection \<open>The regular-expression replacements\<close>

text \<open>
  \<open>s.replace(/0+$/, "")\<close> replaces the first match of one or more \<open>0\<close> anchored at
  the end; the leftmost such match starts the maximal trailing run of zeros, so the
  replacement removes that run.  \<open>s.replace(/\.$/, "")\<close> removes one trailing dot.
\<close>

definition strip_zeros :: "string \<Rightarrow> string" where
  "strip_zeros s = rev (dropWhile (\<lambda>c. c = CHR ''0'') (rev s))"

definition strip_dot :: "string \<Rightarrow> string" where
  "strip_dot s = (if s \<noteq> [] \<and> last s = CHR ''.'' then butlast s else s)"

lemma strip_zeros_point:
  "strip_zeros (a @ CHR ''.'' # b) =
     (if \<forall>c\<in>set b. c = CHR ''0'' then a @ ''.'' else a @ CHR ''.'' # strip_zeros b)"
  unfolding strip_zeros_def by (rule rev_dropWhile_append_nonmatching) simp

lemma strip_zeros_suffix: "\<exists>k. s = strip_zeros s @ replicate k CHR ''0''"
proof -
  let ?P = "\<lambda>c. c = CHR ''0''"
  have "\<forall>y\<in>set (takeWhile ?P (rev s)). y = CHR ''0''"
    by (auto dest: set_takeWhileD)
  then have "replicate (length (takeWhile ?P (rev s))) CHR ''0'' = takeWhile ?P (rev s)"
    by (rule replicate_length_same)
  then obtain k where t: "takeWhile ?P (rev s) = replicate k CHR ''0''"
    by (metis)
  have "s = rev (takeWhile ?P (rev s) @ dropWhile ?P (rev s))"
    by (simp only: takeWhile_dropWhile_id rev_rev_ident)
  also have "\<dots> = rev (dropWhile ?P (rev s)) @ rev (takeWhile ?P (rev s))"
    by (rule rev_append)
  also have "rev (takeWhile ?P (rev s)) = replicate k CHR ''0''"
    by (simp only: t rev_replicate)
  finally show ?thesis unfolding strip_zeros_def by blast
qed

lemma strip_zeros_last:
  assumes "strip_zeros s \<noteq> []" shows "last (strip_zeros s) \<noteq> CHR ''0''"
proof -
  have ne: "dropWhile (\<lambda>c. c = CHR ''0'') (rev s) \<noteq> []"
    using assms by (simp add: strip_zeros_def)
  then have "\<not> hd (dropWhile (\<lambda>c. c = CHR ''0'') (rev s)) = CHR ''0''"
    by (rule hd_dropWhile)
  with ne show ?thesis by (simp add: strip_zeros_def last_rev)
qed

lemma strip_zeros_set: "set (strip_zeros s) \<subseteq> set s"
  unfolding strip_zeros_def by (auto dest: set_dropWhileD)


subsection \<open>The value a decimal string denotes\<close>

text \<open>
  \<open>parse_decimal s\<close> is the rational number written by \<open>s\<close>: an optional minus sign,
  one or more digits, and optionally a point followed by one or more digits.  It is the
  reading under which the specification states what a formatted balance denotes; it is not
  code of the program.
\<close>

definition parse_unsigned :: "string \<Rightarrow> rat option" where
  "parse_unsigned s = (let a = takeWhile (\<lambda>c. c \<noteq> CHR ''.'') s; r = dropWhile (\<lambda>c. c \<noteq> CHR ''.'') s in
     if a \<noteq> [] \<and> list_all is_digit a then
       (case r of [] \<Rightarrow> Some (of_nat (read_nat a))
        | _ # b \<Rightarrow> if b \<noteq> [] \<and> list_all is_digit b
                  then Some (of_nat (read_nat a) + of_nat (read_nat b) / 10 ^ length b) else None)
     else None)"

definition parse_decimal :: "string \<Rightarrow> rat option" where
  "parse_decimal s = (case s of [] \<Rightarrow> None
     | c # t \<Rightarrow> if c = CHR ''-'' then map_option uminus (parse_unsigned t) else parse_unsigned s)"

lemma digits_no_dot: "list_all is_digit a \<Longrightarrow> \<forall>c\<in>set a. c \<noteq> CHR ''.''"
  by (auto simp: list_all_iff)

lemma parse_unsigned_int:
  assumes "a \<noteq> []" "list_all is_digit a"
  shows "parse_unsigned a = Some (of_nat (read_nat a))"
proof -
  have tw: "takeWhile (\<lambda>c. c \<noteq> CHR ''.'') a = a" and dw: "dropWhile (\<lambda>c. c \<noteq> CHR ''.'') a = []"
    using digits_no_dot [OF assms(2)] by (simp_all add: takeWhile_eq_all_conv)
  show ?thesis using assms by (simp add: parse_unsigned_def tw dw)
qed

lemma parse_unsigned_point:
  assumes "a \<noteq> []" "list_all is_digit a" "b \<noteq> []" "list_all is_digit b"
  shows "parse_unsigned (a @ CHR ''.'' # b) = Some (of_nat (read_nat (a @ b)) / 10 ^ length b)"
proof -
  have t: "takeWhile (\<lambda>c. c \<noteq> CHR ''.'') (a @ CHR ''.'' # b) = a"
    and d: "dropWhile (\<lambda>c. c \<noteq> CHR ''.'') (a @ CHR ''.'' # b) = CHR ''.'' # b"
    using digits_no_dot [OF assms(2)] by (simp_all add: takeWhile_append2 dropWhile_append2)
  have "(of_nat (read_nat a) + of_nat (read_nat b) / 10 ^ length b :: rat) =
        of_nat (read_nat (a @ b)) / 10 ^ length b"
    by (simp add: read_nat_append field_simps)
  with assms show ?thesis by (simp add: parse_unsigned_def t d)
qed

lemma parse_decimal_digits:
  assumes "a \<noteq> []" "list_all is_digit a"
  shows "parse_decimal (a @ r) = parse_unsigned (a @ r)"
  using assms by (cases a) (auto simp: parse_decimal_def)

text \<open>Removing trailing zeros of the fraction, then a bare point, keeps the value.\<close>

lemma parse_strip_point:
  assumes a: "a \<noteq> []" "list_all is_digit a" and b: "b \<noteq> []" "list_all is_digit b"
  shows "parse_unsigned (strip_dot (strip_zeros (a @ CHR ''.'' # b))) =
           Some (of_nat (read_nat (a @ b)) / 10 ^ length b)"
proof (cases "\<forall>c\<in>set b. c = CHR ''0''")
  case True
  then have "b = replicate (length b) CHR ''0''" by (simp add: replicate_length_same)
  then have "read_nat (a @ b) = read_nat a * 10 ^ length b"
    by (metis read_nat_zeros_suffix)
  with True a show ?thesis
    by (simp add: strip_zeros_point strip_dot_def parse_unsigned_int)
next
  case False
  obtain k where bk: "b = strip_zeros b @ replicate k CHR ''0''" using strip_zeros_suffix by blast
  have ne: "strip_zeros b \<noteq> []"
    using False bk by (metis append_Nil in_set_replicate)
  have dig: "list_all is_digit (strip_zeros b)"
    using b(2) strip_zeros_set [of b] by (auto simp: list_all_iff)
  have "is_digit (last (strip_zeros b))"
    using ne dig by (simp add: list_all_iff)
  then have "last (a @ CHR ''.'' # strip_zeros b) \<noteq> CHR ''.''"
    using ne by auto
  then have sd: "strip_dot (strip_zeros (a @ CHR ''.'' # b)) = a @ CHR ''.'' # strip_zeros b"
    using False by (simp add: strip_zeros_point strip_dot_def)
  have len: "length b = length (strip_zeros b) + k" using bk by (metis length_append length_replicate)
  have "read_nat (a @ b) = read_nat (a @ strip_zeros b) * 10 ^ k"
    using bk by (metis append_assoc read_nat_zeros_suffix)
  then have "(of_nat (read_nat (a @ b)) / 10 ^ length b :: rat) =
             of_nat (read_nat (a @ strip_zeros b)) / 10 ^ length (strip_zeros b)"
    by (simp add: len power_add)
  then show ?thesis
    using a ne dig by (simp add: sd parse_unsigned_point)
qed


lemma strip_point_prefix: "\<exists>r. strip_dot (strip_zeros (a @ CHR ''.'' # b)) = a @ r"
proof -
  obtain x where x: "strip_zeros (a @ CHR ''.'' # b) = a @ CHR ''.'' # x"
    by (cases "\<forall>c\<in>set b. c = CHR ''0''") (auto simp: strip_zeros_point)
  show ?thesis
    by (auto simp: x strip_dot_def butlast_append)
qed


text \<open>
  A digit string followed by a fraction whose trailing zeros are cut, the point omitted when
  nothing is left, denotes the same number as with the full fraction.
\<close>

definition point_fraction :: "string \<Rightarrow> string" where
  "point_fraction f = (if f = [] then [] else CHR ''.'' # f)"

lemma parse_trimmed:
  assumes a: "a \<noteq> []" "list_all is_digit a" and b: "list_all is_digit b"
  shows "parse_unsigned (a @ point_fraction (strip_zeros b)) = Some (of_nat (read_nat (a @ b)) / 10 ^ length b)"
proof -
  obtain k where bk: "b = strip_zeros b @ replicate k CHR ''0''" using strip_zeros_suffix by blast
  have len: "length b = length (strip_zeros b) + k" using bk by (metis length_append length_replicate)
  have rd: "read_nat (a @ b) = read_nat (a @ strip_zeros b) * 10 ^ k"
    using bk by (metis append_assoc read_nat_zeros_suffix)
  have val: "(of_nat (read_nat (a @ b)) / 10 ^ length b :: rat) =
             of_nat (read_nat (a @ strip_zeros b)) / 10 ^ length (strip_zeros b)"
    by (simp add: rd len power_add)
  show ?thesis
  proof (cases "strip_zeros b = []")
    case True
    then show ?thesis using a val by (simp add: point_fraction_def parse_unsigned_int)
  next
    case False
    have "list_all is_digit (strip_zeros b)"
      using b strip_zeros_set [of b] by (auto simp: list_all_iff)
    then show ?thesis using a False val by (simp add: point_fraction_def parse_unsigned_point)
  qed
qed

lemma show_int_nonneg: "0 \<le> i \<Longrightarrow> show_int i = show_nat (nat i)"
  by (simp add: show_int_def)

lemma show_int_neg: "i < 0 \<Longrightarrow> show_int i = CHR ''-'' # show_nat (nat (- i))"
  by (simp add: show_int_def)

lemma show_nat_hd: "hd (show_nat n) \<noteq> CHR ''-''"
  using show_nat_digits [of "hd (show_nat n)" n] hd_in_set [OF show_nat_not_Nil] by auto

subsection \<open>The number of digits\<close>

lemma show_nat_length_upper: "n < 10 ^ length (show_nat n)"
proof (induction n rule: show_nat.induct)
  case (1 n)
  show ?case
  proof (cases "n < 10")
    case True
    then show ?thesis by (simp add: show_nat.simps [of n])
  next
    case False
    then have "n div 10 < 10 ^ length (show_nat (n div 10))" using "1.IH" by simp
    then have "n < 10 * 10 ^ length (show_nat (n div 10))" by linarith
    then show ?thesis using False by (simp add: show_nat.simps [of n])
  qed
qed

lemma show_nat_length_lower: "10 ^ (length (show_nat n) - 1) \<le> max n 1"
proof (induction n rule: show_nat.induct)
  case (1 n)
  show ?case
  proof (cases "n < 10")
    case True
    then show ?thesis by (simp add: show_nat.simps [of n])
  next
    case False
    then have "10 ^ (length (show_nat (n div 10)) - 1) \<le> n div 10" using "1.IH" by simp
    then have "10 * 10 ^ (length (show_nat (n div 10)) - 1) \<le> n" by linarith
    moreover have "0 < length (show_nat (n div 10))" using show_nat_not_Nil by (simp add: neq_Nil_conv)
    ultimately show ?thesis using False
      by (simp add: show_nat.simps [of n] power_Suc [symmetric] del: power_Suc)
  qed
qed

lemma length_show_nat:
  assumes "10 ^ (j - 1) \<le> n" "n < 10 ^ j" "0 < j"
  shows "length (show_nat n) = j"
proof -
  define l where "l = length (show_nat n)"
  have l0: "0 < l" using show_nat_not_Nil by (simp add: l_def neq_Nil_conv)
  have u: "n < 10 ^ l" using show_nat_length_upper by (simp add: l_def)
  have lo: "10 ^ (l - 1) \<le> max n 1" using show_nat_length_lower by (simp add: l_def)
  have "10 ^ (j - 1) < (10::nat) ^ l" using assms(1) u by linarith
  then have "j - 1 < l" by (simp add: power_strict_increasing_iff)
  moreover have "(10::nat) ^ (l - 1) < 10 ^ j"
  proof (cases "n = 0")
    case True
    then have "(10::nat) ^ (l - 1) \<le> 1" using lo by simp
    moreover have "(1::nat) < 10 ^ j" using assms(3) by (intro one_less_power) simp_all
    ultimately show ?thesis by linarith
  next
    case False
    then have "10 ^ (l - 1) \<le> n" using lo by simp
    then show ?thesis using assms(2) by linarith
  qed
  then have "l - 1 < j" by (simp add: power_strict_increasing_iff)
  ultimately show ?thesis using l0 assms(3) by (simp add: l_def)
qed

subsection \<open>Evaluation rules\<close>

text \<open>Printing, reading and the two regular-expression replacements unfold on concrete strings and numbers.\<close>

declare is_digit_def [eval_simps]
  digit_val_def [eval_simps]
  show_nat.simps [eval_simps]
  show_int_def [eval_simps]
  read_nat_def [eval_simps]
  read_digits.simps [eval_simps]
  strip_zeros_def [eval_simps]
  strip_dot_def [eval_simps]
  parse_unsigned_def [eval_simps]
  parse_decimal_def [eval_simps]
  point_fraction_def [eval_simps]

end
