(* ===== verification/JsNumber.thy ===== *)
theory JsNumber
  imports Decimal
begin

text \<open>
  JavaScript numbers as the program uses them in \<open>formatSol\<close> (SignedInScreen.tsx
  lines 96 and 128--132): \<open>Number(balance)\<close> converts a \<open>bigint\<close> to a double and
  \<open>lamports / LAMPORTS_PER_SOL\<close> divides two doubles; their printing by \<open>toFixed\<close>
  is in ToFixed.  A finite double is modelled by its sign, a significand below \<open>2^53\<close>
  and an exponent; every operation rounds the exact result to the nearest such value, ties
  to an even significand, as ECMAScript prescribes (IEEE 754 binary64, roundTiesToEven), and
  a result of magnitude \<open>2^1024\<close> or more is \<open>Infinity\<close> (\<open>to_number\<close>, "the
  Number value for x").  The exponent has no lower bound, so subnormal results are not
  modelled: the quotients the program forms, of an integer by \<open>10^9\<close>, are zero or at
  least \<open>10^-9\<close>, far inside the normal range.  \<open>NaN\<close> does not arise.
\<close>

datatype js_number = JsNum bool nat int | JsInf bool

text \<open>The value of a finite double (\<open>Infinity\<close> has none; it is given \<open>0\<close>).\<close>

definition js_val :: "js_number \<Rightarrow> rat" where
  "js_val x = (case x of JsNum s m e \<Rightarrow> (if s then -1 else 1) * of_nat m * 2 powi e | JsInf s \<Rightarrow> 0)"

definition js_sign :: "js_number \<Rightarrow> bool" where
  "js_sign x = (case x of JsNum s m e \<Rightarrow> s | JsInf s \<Rightarrow> s)"

definition js_finite :: "js_number \<Rightarrow> bool" where
  "js_finite x = (case x of JsNum s m e \<Rightarrow> True | JsInf s \<Rightarrow> False)"

subsection \<open>Rounding to the nearest double\<close>

definition round_half_even :: "rat \<Rightarrow> int" where
  "round_half_even r = (let k = \<lfloor>r\<rfloor>; d = r - of_int k in
     if d < 1/2 then k else if 1/2 < d then k + 1 else if even k then k else k + 1)"

text \<open>\<open>nbits n\<close> is the number of binary digits of \<open>n\<close>.\<close>

fun nbits :: "nat \<Rightarrow> nat" where
  "nbits n = (if n = 0 then 0 else Suc (nbits (n div 2)))"

declare nbits.simps [simp del]

text \<open>
  \<open>binade r\<close>, for positive \<open>r\<close>, is the exponent \<open>e\<close> with
  \<open>2^52 \<le> r / 2^e < 2^53\<close>: a first guess from the bit lengths of numerator and
  denominator, corrected by one.
\<close>

definition binade :: "rat \<Rightarrow> int" where
  "binade r = (case quotient_of r of (a, b) \<Rightarrow>
     let e0 = int (nbits (nat a)) - int (nbits (nat b)) - 53 in
     if 2 ^ 53 \<le> r / 2 powi e0 then e0 + 1 else e0)"

definition round_double :: "rat \<Rightarrow> js_number" where
  "round_double q = (if q = 0 then JsNum False 0 0 else
     let r = \<bar>q\<bar>; e = binade r; m = nat (round_half_even (r / 2 powi e)) in
     if m = 2 ^ 53 then JsNum (q < 0) (2 ^ 52) (e + 1) else JsNum (q < 0) m e)"

text \<open>
  ECMAScript's "the Number value for \<open>q\<close>": the nearest double, \<open>2^1024\<close> taking part in
  the choice as if it were one, and \<open>Infinity\<close> when it is chosen.  A rounded value
  \<open>m * 2^e\<close> with \<open>2^52 \<le> m < 2^53\<close> reaches \<open>2^1024\<close> exactly when \<open>e > 971\<close>.
\<close>

definition to_number :: "rat \<Rightarrow> js_number" where
  "to_number q = (case round_double q of
      JsNum s m e \<Rightarrow> (if 971 < e then JsInf s else JsNum s m e)
    | JsInf s \<Rightarrow> JsInf s)"

text \<open>The doubles of the model: a normalised significand and an exponent of at most 971.\<close>

definition wf_js :: "js_number \<Rightarrow> bool" where
  "wf_js x = (case x of
      JsNum s m e \<Rightarrow> m < 2 ^ 53 \<and> (if m = 0 then e = 0 else 2 ^ 52 \<le> m \<and> e \<le> 971)
    | JsInf s \<Rightarrow> True)"

text \<open>\<open>Number(b)\<close> for a \<open>bigint\<close> \<open>b\<close> (ECMAScript BigInt::toNumber).\<close>

definition number_of_bigint :: "bigint \<Rightarrow> js_number" where
  "number_of_bigint l = to_number (of_int l)"

text \<open>
  Division of a double by a positive integral double \<open>c\<close> (Number::divide): the Number
  value of the exact quotient, with the sign of the dividend, also for \<open>-0\<close>;
  \<open>Infinity\<close> divided by \<open>c\<close> stays \<open>Infinity\<close>.
\<close>

definition js_div :: "js_number \<Rightarrow> nat \<Rightarrow> js_number" where
  "js_div x c = (case x of
      JsInf s \<Rightarrow> JsInf s
    | JsNum s m e \<Rightarrow> (case to_number (js_val x / of_nat c) of
          JsNum s' m' e' \<Rightarrow> JsNum s m' e' | JsInf s' \<Rightarrow> JsInf s))"

text \<open>
  \<open>BigInt(x)\<close> for a number \<open>x\<close> (ECMAScript NumberToBigInt): the integer \<open>x\<close> is, or
  a \<open>RangeError\<close> (\<open>None\<close>) when \<open>x\<close> is not a finite integral number.
\<close>

definition BigInt_of_number :: "js_number \<Rightarrow> bigint option" where
  "BigInt_of_number x = (case x of
      JsInf _ \<Rightarrow> None
    | JsNum _ _ _ \<Rightarrow> if of_int \<lfloor>js_val x\<rfloor> = js_val x then Some \<lfloor>js_val x\<rfloor> else None)"

text \<open>The number a JSON reply carries for the integer \<open>n\<close>: \<open>JSON.parse\<close> takes the nearest double.\<close>

definition json_number :: "nat \<Rightarrow> js_number" where
  "json_number n = to_number (of_nat n)"

subsection \<open>Properties of rounding\<close>

lemma round_half_even_bound: "\<bar>of_int (round_half_even r) - r\<bar> \<le> 1/2"
proof -
  have fl: "of_int \<lfloor>r\<rfloor> \<le> r" "r < of_int \<lfloor>r\<rfloor> + 1"
    using floor_eq_iff by blast+
  show ?thesis
    unfolding round_half_even_def Let_def
    using fl by (simp add: abs_if; linarith)
qed

lemma round_half_even_floor: "\<lfloor>r\<rfloor> \<le> round_half_even r \<and> round_half_even r \<le> \<lfloor>r\<rfloor> + 1"
  by (simp add: round_half_even_def Let_def)

lemma round_half_even_of_int [simp]: "round_half_even (of_int k) = k"
  by (simp add: round_half_even_def)

lemma round_half_even_of_nat [simp]: "round_half_even (of_nat n) = int n"
  using round_half_even_of_int [of "int n"] by simp

lemma nbits_upper: "n < 2 ^ nbits n"
proof (induction n rule: nbits.induct)
  case (1 n)
  show ?case
  proof (cases "n = 0")
    case True
    then show ?thesis by (simp add: nbits.simps [of n])
  next
    case False
    with "1.IH" have "n div 2 < 2 ^ nbits (n div 2)" by simp
    then show ?thesis using False by (simp add: nbits.simps [of n])
  qed
qed

lemma nbits_lower: "0 < n \<Longrightarrow> 2 ^ nbits n \<le> 2 * n"
proof (induction n rule: nbits.induct)
  case (1 n)
  show ?case
  proof (cases "n = 1")
    case True
    have "nbits 1 = 1"
      by (subst nbits.simps) (simp add: nbits.simps [of 0])
    with True show ?thesis by simp
  next
    case False
    with "1.prems" have "0 < n div 2" by simp
    with "1.IH" "1.prems" have "2 ^ nbits (n div 2) \<le> 2 * (n div 2)" by simp
    with "1.prems" show ?thesis by (simp add: nbits.simps [of n])
  qed
qed


subsection \<open>The exponent and the rounding error\<close>

lemma nbits_pos_rat:
  assumes "0 < a"
  shows "(2::rat) ^ nbits (nat a) \<le> 2 * of_int a" "of_int a < (2::rat) ^ nbits (nat a)"
proof -
  have "2 ^ nbits (nat a) \<le> 2 * nat a" using assms by (simp add: nbits_lower)
  then have "of_nat (2 ^ nbits (nat a)) \<le> (of_nat (2 * nat a) :: rat)" by (rule of_nat_mono)
  then show "(2::rat) ^ nbits (nat a) \<le> 2 * of_int a" using assms by simp
  have "nat a < 2 ^ nbits (nat a)" by (rule nbits_upper)
  then have "of_nat (nat a) < (of_nat (2 ^ nbits (nat a)) :: rat)" by (simp only: of_nat_less_iff)
  then show "of_int a < (2::rat) ^ nbits (nat a)" using assms by simp
qed

lemma binade_guess_bounds:
  fixes a b :: int and la lb :: nat
  assumes a: "0 < a" and b: "0 < b"
    and la: "(2::rat) ^ la \<le> 2 * of_int a" "of_int a < (2::rat) ^ la"
    and lb: "(2::rat) ^ lb \<le> 2 * of_int b" "of_int b < (2::rat) ^ lb"
  defines "v \<equiv> (of_int a / of_int b :: rat) / 2 powi (int la - int lb - 53)"
  shows "2 ^ 52 \<le> v \<and> v < 2 ^ 54"
proof -
  have p: "(2::rat) powi (int la - int lb - 53) = 2 ^ la / (2 ^ lb * 2 ^ 53)"
    by (simp add: power_int_diff)
  have v: "v = of_int a * 2 ^ lb * 2 ^ 53 / (of_int b * 2 ^ la)"
    unfolding v_def p by (simp add: field_simps)
  have pos: "(0::rat) < of_int a" "(0::rat) < of_int b" using a b by simp_all
  have "of_int b * 2 ^ la \<le> (2::rat) ^ lb * (2 * of_int a)"
    using lb(2) la(1) pos by (intro mult_mono) simp_all
  then have lo: "2 ^ 52 * (of_int b * 2 ^ la) \<le> of_int a * 2 ^ lb * (2::rat) ^ 53"
    by (simp add: algebra_simps)
  have "of_int a * 2 ^ lb < (2::rat) ^ la * (2 * of_int b)"
    using la(2) lb(1) pos by (intro mult_less_le_imp_less) simp_all
  then have hi: "of_int a * 2 ^ lb * 2 ^ 53 < 2 ^ 54 * (of_int b * (2::rat) ^ la)"
    by (simp add: algebra_simps)
  have den: "0 < of_int b * (2::rat) ^ la" using pos by simp
  show ?thesis
    unfolding v using lo hi den by (simp add: pos_le_divide_eq pos_divide_less_eq)
qed

lemma binade_bounds:
  assumes "0 < r"
  shows "2 ^ 52 \<le> r / 2 powi binade r \<and> r / 2 powi binade r < 2 ^ 53"
proof -
  obtain a b where q: "quotient_of r = (a, b)" by (cases "quotient_of r")
  have b: "0 < b" using q by (rule quotient_of_denom_pos)
  have r: "r = of_int a / of_int b" using q by (rule quotient_of_div)
  have a: "0 < a" using assms b r by (simp add: zero_less_divide_iff)
  define e0 where "e0 = int (nbits (nat a)) - int (nbits (nat b)) - 53"
  have g: "2 ^ 52 \<le> r / 2 powi e0 \<and> r / 2 powi e0 < 2 ^ 54"
    using binade_guess_bounds [OF a b nbits_pos_rat [OF a] nbits_pos_rat [OF b]]
    unfolding e0_def r by simp
  have bin: "binade r = (if 2 ^ 53 \<le> r / 2 powi e0 then e0 + 1 else e0)"
    by (simp add: binade_def q e0_def Let_def)
  have half: "r / 2 powi (e0 + 1) = (r / 2 powi e0) / 2"
    by (simp add: power_int_add_1)
  show ?thesis
    using g by (simp add: bin half)
qed

lemma round_half_even_range:
  assumes "2 ^ 52 \<le> v" "v < 2 ^ 53"
  shows "2 ^ 52 \<le> round_half_even v \<and> round_half_even v \<le> 2 ^ 53"
proof -
  have b: "\<bar>of_int (round_half_even v) - v\<bar> \<le> 1/2" by (rule round_half_even_bound)
  then have "of_int (round_half_even v) - v \<le> 1/2 \<and> - (of_int (round_half_even v) - v) \<le> 1/2"
    by (simp only: abs_le_iff)
  then have l: "v - 1/2 \<le> of_int (round_half_even v)" and u: "of_int (round_half_even v) \<le> v + 1/2"
    by linarith+
  have e1: "(of_int (2 ^ 52 - 1) :: rat) = 2 ^ 52 - 1" and e2: "(of_int (2 ^ 53 + 1) :: rat) = 2 ^ 53 + 1"
    by simp_all
  have "(of_int (2 ^ 52 - 1) :: rat) < of_int (round_half_even v)"
    unfolding e1 using l assms(1) by linarith
  then have lo: "2 ^ 52 - 1 < round_half_even v" by (simp only: of_int_less_iff)
  have "of_int (round_half_even v) < (of_int (2 ^ 53 + 1) :: rat)"
    unfolding e2 using u assms(2) by linarith
  then have hi: "round_half_even v < 2 ^ 53 + 1" by (simp only: of_int_less_iff)
  from lo hi show ?thesis by simp
qed

lemma js_sign_round_double [simp]: "js_sign (round_double q) = (q < 0)"
  by (simp add: round_double_def js_sign_def Let_def)

lemma round_double_val:
  assumes "q \<noteq> 0"
  shows "js_val (round_double q) =
           sgn q * of_int (round_half_even (\<bar>q\<bar> / 2 powi binade \<bar>q\<bar>)) * 2 powi binade \<bar>q\<bar>"
proof -
  define e where "e = binade \<bar>q\<bar>"
  define m where "m = round_half_even (\<bar>q\<bar> / 2 powi e)"
  have "2 ^ 52 \<le> \<bar>q\<bar> / 2 powi e \<and> \<bar>q\<bar> / 2 powi e < 2 ^ 53"
    unfolding e_def using assms by (intro binade_bounds) simp
  then have mb: "2 ^ 52 \<le> m \<and> m \<le> 2 ^ 53"
    unfolding m_def by (intro round_half_even_range) simp_all
  have sg: "(if q < 0 then -1 else 1) = sgn q"
    using assms by (simp add: sgn_if)
  have rd: "round_double q =
      (if nat m = 2 ^ 53 then JsNum (q < 0) (2 ^ 52) (e + 1) else JsNum (q < 0) (nat m) e)"
    using assms by (simp add: round_double_def Let_def e_def m_def)
  show ?thesis
  proof (cases "nat m = 2 ^ 53")
    case True
    then have "m = 2 ^ 53" using mb by simp
    with True show ?thesis
      by (simp add: rd js_val_def sg e_def [symmetric] m_def [symmetric] power_int_add_1)
  next
    case False
    have "of_nat (nat m) = (of_int m :: rat)" using mb by simp
    with False show ?thesis
      by (simp add: rd js_val_def sg e_def [symmetric] m_def [symmetric])
  qed
qed

lemma round_double_error: "\<bar>js_val (round_double q) - q\<bar> \<le> 2 powi binade \<bar>q\<bar> / 2"
proof (cases "q = 0")
  case True
  then show ?thesis by (simp add: round_double_def js_val_def)
next
  case False
  define e where "e = binade \<bar>q\<bar>"
  define v where "v = \<bar>q\<bar> / 2 powi e"
  have qv: "q = sgn q * (v * 2 powi e)"
    by (simp add: v_def sgn_mult_abs)
  have d: "js_val (round_double q) - q = sgn q * ((of_int (round_half_even v) - v) * 2 powi e)"
    using False by (subst qv) (simp add: round_double_val v_def e_def algebra_simps)
  have s1: "\<bar>sgn q\<bar> = 1" using False by (cases "q < 0") simp_all
  have "\<bar>js_val (round_double q) - q\<bar> = \<bar>of_int (round_half_even v) - v\<bar> * 2 powi e"
    unfolding d abs_mult s1 by simp
  also have "\<dots> \<le> 1/2 * 2 powi e"
    by (intro mult_right_mono round_half_even_bound) simp
  finally show ?thesis by (simp add: e_def)
qed

lemma round_double_exact:
  assumes "\<bar>q\<bar> / 2 powi binade \<bar>q\<bar> = of_int k"
  shows "js_val (round_double q) = q"
proof (cases "q = 0")
  case True
  then show ?thesis by (simp add: round_double_def js_val_def)
next
  case False
  have nz: "(2::rat) powi binade \<bar>q\<bar> \<noteq> 0" by simp
  have a: "\<bar>q\<bar> = of_int k * 2 powi binade \<bar>q\<bar>"
    using assms nonzero_divide_eq_eq [OF nz] by blast
  have "js_val (round_double q) = sgn q * (of_int k * 2 powi binade \<bar>q\<bar>)"
    using False by (simp add: round_double_val assms mult.assoc)
  also have "\<dots> = sgn q * \<bar>q\<bar>" using a [symmetric] by (rule arg_cong)
  also have "\<dots> = q" by (rule sgn_mult_abs)
  finally show ?thesis .
qed


lemma round_double_nonneg: "0 \<le> q \<Longrightarrow> 0 \<le> js_val (round_double q)"
  by (simp add: round_double_def js_val_def Let_def)

lemma round_double_abs_le: "\<bar>js_val (round_double q)\<bar> \<le> 2 * \<bar>q\<bar>"
proof (cases "q = 0")
  case True
  then show ?thesis by (simp add: round_double_def js_val_def)
next
  case False
  have "2 ^ 52 \<le> \<bar>q\<bar> / 2 powi binade \<bar>q\<bar>"
    using binade_bounds [of "\<bar>q\<bar>"] False by simp
  then have "2 powi binade \<bar>q\<bar> \<le> \<bar>q\<bar> / 2 ^ 52"
    by (simp add: field_simps)
  then have "2 powi binade \<bar>q\<bar> / 2 \<le> \<bar>q\<bar>" by simp
  moreover have "\<bar>js_val (round_double q)\<bar> - \<bar>q\<bar> \<le> \<bar>js_val (round_double q) - q\<bar>"
    by (rule abs_triangle_ineq2)
  ultimately show ?thesis using round_double_error [of q] by linarith
qed

text \<open>Relative to the value, the rounding error is at most \<open>2^-53\<close>.\<close>

lemma round_double_rel_error: "\<bar>js_val (round_double q) - q\<bar> \<le> \<bar>q\<bar> / 2 ^ 53"
proof (cases "q = 0")
  case True
  then show ?thesis by (simp add: round_double_def js_val_def)
next
  case False
  then have r: "0 < \<bar>q\<bar>" by simp
  have "2 ^ 52 \<le> \<bar>q\<bar> / 2 powi binade \<bar>q\<bar>" using binade_bounds [OF r] by blast
  then have "2 ^ 52 * 2 powi binade \<bar>q\<bar> \<le> \<bar>q\<bar>" by (simp add: le_divide_eq)
  then have "2 powi binade \<bar>q\<bar> / 2 \<le> \<bar>q\<bar> / 2 ^ 53" by (simp add: field_simps)
  then show ?thesis using round_double_error [of q] by linarith
qed

subsection \<open>The Number value: no overflow below \<open>2^1023\<close>\<close>

lemma js_finite_round_double [simp]: "js_finite (round_double q)"
  by (simp add: round_double_def js_finite_def Let_def)

lemma round_double_normal:
  assumes "round_double q = JsNum s m e"
  shows "if q = 0 then m = 0 \<and> e = 0 else 2 ^ 52 \<le> m \<and> m < 2 ^ 53"
proof (cases "q = 0")
  case True
  then show ?thesis using assms by (simp add: round_double_def)
next
  case False
  define v where "v = \<bar>q\<bar> / 2 powi binade \<bar>q\<bar>"
  have "2 ^ 52 \<le> v \<and> v < 2 ^ 53"
    unfolding v_def using False by (intro binade_bounds) simp
  then have mb: "2 ^ 52 \<le> round_half_even v \<and> round_half_even v \<le> 2 ^ 53"
    by (intro round_half_even_range) simp_all
  have "round_double q = JsNum (q < 0)
          (if nat (round_half_even v) = 2 ^ 53 then 2 ^ 52 else nat (round_half_even v))
          (if nat (round_half_even v) = 2 ^ 53 then binade \<bar>q\<bar> + 1 else binade \<bar>q\<bar>)"
    using False by (simp add: round_double_def Let_def v_def)
  then have "m = (if nat (round_half_even v) = 2 ^ 53 then 2 ^ 52 else nat (round_half_even v))"
    using assms by simp
  then show ?thesis using False mb by (auto simp: nat_less_iff le_nat_iff)
qed

lemma round_double_exp_bound:
  assumes "round_double q = JsNum s m e" "q \<noteq> 0" "\<bar>q\<bar> < 2 powi b"
  shows "e + 52 \<le> b"
proof (rule ccontr)
  assume "\<not> e + 52 \<le> b"
  have "2 ^ 52 \<le> m" using round_double_normal [OF assms(1)] assms(2) by simp
  then have m: "(2::rat) ^ 52 \<le> of_nat m" by (rule numeral_pow_le_of_nat)
  have "(2::rat) powi (b + 1) \<le> 2 powi (e + 52)"
    using \<open>\<not> e + 52 \<le> b\<close> by (intro power_int_increasing) simp_all
  also have "\<dots> = 2 ^ 52 * 2 powi e" by (simp add: power_int_add)
  also have "\<dots> \<le> of_nat m * 2 powi e" using m by (intro mult_right_mono) simp_all
  also have "\<dots> = \<bar>js_val (round_double q)\<bar>" using assms(1) by (simp add: js_val_def abs_mult)
  also have "\<dots> \<le> 2 * \<bar>q\<bar>" by (rule round_double_abs_le)
  also have "\<dots> < 2 * 2 powi b" using assms(3) by simp
  also have "\<dots> = 2 powi (b + 1)" by (simp add: power_int_add)
  finally show False by simp
qed

lemma to_number_round:
  assumes "\<bar>q\<bar> < 2 ^ 1023"
  shows "to_number q = round_double q"
proof (cases "round_double q")
  case (JsNum s m e)
  show ?thesis
  proof (cases "q = 0")
    case True
    then show ?thesis by (simp add: to_number_def round_double_def)
  next
    case False
    have "\<bar>q\<bar> < 2 powi 1023" using assms by (simp only: power_int_numeral)
    then have "e + 52 \<le> 1023" by (rule round_double_exp_bound [OF JsNum False])
    then show ?thesis using JsNum by (simp add: to_number_def)
  qed
next
  case (JsInf s)
  then show ?thesis using js_finite_round_double [of q] by (simp add: js_finite_def)
qed

lemma number_of_bigint_round:
  "\<bar>l\<bar> < 2 ^ 1023 \<Longrightarrow> number_of_bigint l = round_double (of_int l)"
  unfolding number_of_bigint_def by (rule to_number_round) (simp only: of_int_abs [symmetric], simp)

lemma number_of_bigint_exact:
  assumes "\<bar>l\<bar> < 2 ^ 53"
  shows "js_val (number_of_bigint l) = of_int l"
proof (cases "l = 0")
  case True
  then show ?thesis by (simp add: number_of_bigint_round round_double_def js_val_def)
next
  case False
  define e where "e = binade \<bar>of_int l :: rat\<bar>"
  have bd: "2 ^ 52 \<le> \<bar>of_int l :: rat\<bar> / 2 powi e"
    using binade_bounds [of "\<bar>of_int l :: rat\<bar>"] False by (simp add: e_def)
  have "e \<le> 0"
  proof (rule ccontr)
    assume "\<not> e \<le> 0"
    then have "(2::rat) powi 1 \<le> 2 powi e" by (intro power_int_increasing) simp_all
    then have "\<bar>of_int l :: rat\<bar> / 2 powi e \<le> \<bar>of_int l\<bar> / 2"
      by (intro divide_left_mono) simp_all
    also have "\<dots> < 2 ^ 52" using assms by simp
    finally show False using bd by simp
  qed
  then obtain k where k: "e = - int k" by (metis minus_minus nonneg_int_cases neg_0_le_iff_le)
  have "(2::rat) powi e = inverse (2 ^ k)"
    unfolding k power_int_minus by simp
  then have "\<bar>of_int l :: rat\<bar> / 2 powi e = of_int (\<bar>l\<bar> * 2 ^ k)"
    by (simp add: divide_inverse)
  then have "js_val (round_double (of_int l)) = of_int l"
    unfolding e_def by (rule round_double_exact)
  moreover have "\<bar>l\<bar> < 2 ^ 1023" using assms by simp
  ultimately show ?thesis by (simp add: number_of_bigint_round)
qed

lemma js_div_round:
  assumes "js_finite x" "\<not> js_sign x" "0 \<le> js_val x" "js_val x / of_nat c < 2 ^ 1023"
  shows "js_div x c = round_double (js_val x / of_nat c)"
proof -
  obtain s m e where x: "x = JsNum s m e" using assms(1) by (cases x) (simp_all add: js_finite_def)
  have tn: "to_number (js_val x / of_nat c) = round_double (js_val x / of_nat c)"
    using assms(3,4) by (intro to_number_round) simp
  obtain s' m' e' where rd: "round_double (js_val x / of_nat c) = JsNum s' m' e'"
    using js_finite_round_double [of "js_val x / of_nat c"] by (cases "round_double (js_val x / of_nat c)")
      (simp_all add: js_finite_def)
  then have "s' = (js_val x / of_nat c < 0)"
    using js_sign_round_double [of "js_val x / of_nat c"] by (simp add: js_sign_def)
  with assms(2,3) x have "s' = s" by (simp add: divide_less_0_iff js_sign_def)
  then show ?thesis using tn rd unfolding x by (simp add: js_div_def)
qed

lemma json_number_bigint: "json_number n = number_of_bigint (int n)"
  by (simp add: json_number_def number_of_bigint_def)

lemma json_number_exact: "n < 2 ^ 53 \<Longrightarrow> BigInt_of_number (json_number n) = Some (int n)"
proof -
  assume n: "n < 2 ^ 53"
  have r: "json_number n = round_double (of_int (int n))"
    unfolding json_number_bigint using n by (intro number_of_bigint_round) simp
  have v: "js_val (json_number n) = of_int (int n)"
    unfolding json_number_bigint using n by (intro number_of_bigint_exact) simp
  have "js_finite (json_number n)" unfolding r by (rule js_finite_round_double)
  then obtain s m e where "json_number n = JsNum s m e"
    by (cases "json_number n") (simp_all add: js_finite_def)
  then show ?thesis using v by (simp add: BigInt_of_number_def)
qed

subsection \<open>Overflow to \<open>Infinity\<close>\<close>

lemma binade_lower:
  assumes r: "0 < r" and b: "2 powi (b + 52) \<le> r"
  shows "b \<le> binade r"
proof (rule ccontr)
  assume "\<not> b \<le> binade r"
  then have "(2::rat) powi (binade r + 53) \<le> 2 powi (b + 52)" by (intro power_int_increasing) simp_all
  moreover have "r / 2 powi binade r < 2 ^ 53" using binade_bounds [OF r] by simp
  then have "r < 2 ^ 53 * 2 powi binade r" by (simp add: divide_less_eq)
  then have "r < 2 powi (binade r + 53)" by (simp add: power_int_add mult.commute)
  ultimately show False using b by simp
qed

lemma round_double_exp_lower:
  "round_double q = JsNum s m e \<Longrightarrow> q \<noteq> 0 \<Longrightarrow> binade \<bar>q\<bar> \<le> e"
  by (auto simp: round_double_def Let_def split: if_splits)

lemma to_number_overflow:
  assumes "2 powi 1024 \<le> \<bar>q\<bar>"
  shows "to_number q = JsInf (q < 0)"
proof -
  have q: "q \<noteq> 0" using assms by (auto dest: order.trans [of _ _ 0])
  obtain s m e where rd: "round_double q = JsNum s m e"
    using js_finite_round_double [of q] by (cases "round_double q") (simp_all add: js_finite_def)
  have "972 \<le> binade \<bar>q\<bar>" using q assms by (intro binade_lower) simp_all
  then have "971 < e" using round_double_exp_lower [OF rd q] by simp
  moreover have "s = (q < 0)" using js_sign_round_double [of q] rd by (simp add: js_sign_def)
  ultimately show ?thesis by (simp add: to_number_def rd)
qed

lemma number_of_bigint_overflow:
  assumes "2 ^ 1024 \<le> l"
  shows "number_of_bigint l = JsInf False"
proof -
  have "of_int ((2::int) ^ 1024) \<le> (of_int l :: rat)"
    using assms by (rule of_int_le_iff [THEN iffD2])
  then have h: "(2::rat) ^ 1024 \<le> of_int l" by (simp only: of_int_power of_int_numeral)
  then have "2 powi 1024 \<le> \<bar>(of_int l :: rat)\<bar>" by (simp only: power_int_numeral)
  moreover have "\<not> (of_int l :: rat) < 0"
    using h zero_le_power [of "2::rat" 1024] by linarith
  ultimately show ?thesis unfolding number_of_bigint_def by (simp only: to_number_overflow)
qed

subsection \<open>The exponent is determined by the bounds\<close>

lemma binade_eqI:
  assumes r: "0 < r" and e: "2 ^ 52 \<le> r / 2 powi e" "r / 2 powi e < 2 ^ 53"
  shows "binade r = e"
proof -
  define e' where "e' = binade r"
  have b: "2 ^ 52 \<le> r / 2 powi e'" "r / 2 powi e' < 2 ^ 53"
    using binade_bounds [OF r] by (simp_all add: e'_def)
  have shift: "r / 2 powi d = (r / 2 powi d') * 2 powi (d' - d)" for d d' :: int
    by (simp add: power_int_diff)
  have no: False if "d < d'" "2 ^ 52 \<le> r / 2 powi d'" "r / 2 powi d < 2 ^ 53" for d d' :: int
  proof -
    have "(2::rat) powi 1 \<le> 2 powi (d' - d)" using that(1) by (intro power_int_increasing) simp_all
    then have c: "(2::rat) \<le> 2 powi (d' - d)" by simp
    have p: "0 \<le> r / 2 powi d'" by (rule order_trans [OF _ that(2)]) simp
    have "2 ^ 52 * 2 \<le> (r / 2 powi d') * 2 powi (d' - d)"
      by (rule mult_mono [OF that(2) c p]) simp
    then have "2 ^ 53 \<le> r / 2 powi d" using shift [of d d'] by simp
    then show False using that(3) by simp
  qed
  have "\<not> e < e'" using no [of e e'] b e by blast
  moreover have "\<not> e' < e" using no [of e' e] b e by blast
  ultimately show ?thesis by (simp add: e'_def [symmetric])
qed

subsection \<open>Well-formed doubles\<close>

lemma wf_round_double_small:
  assumes "round_double q = JsNum s m e" "e \<le> 971"
  shows "wf_js (JsNum s m e)"
  using round_double_normal [OF assms(1)] assms(2) by (auto simp: wf_js_def split: if_splits)

lemma wf_js_sign: "wf_js (JsNum s m e) = wf_js (JsNum s' m e)"
  by (simp add: wf_js_def)

lemma wf_to_number: "wf_js (to_number q)"
proof (cases "round_double q")
  case (JsNum s m e)
  show ?thesis
  proof (cases "971 < e")
    case True
    then show ?thesis by (simp add: to_number_def JsNum wf_js_def)
  next
    case False
    then have "to_number q = JsNum s m e" by (simp add: to_number_def JsNum)
    with wf_round_double_small [OF JsNum] False show ?thesis by simp
  qed
next
  case (JsInf s)
  then show ?thesis by (simp add: to_number_def wf_js_def)
qed

lemma wf_js_div: "wf_js (js_div x c)"
proof (cases x)
  case (JsNum s m e)
  have w: "wf_js (to_number (js_val x / of_nat c))" by (rule wf_to_number)
  show ?thesis
  proof (cases "to_number (js_val x / of_nat c)")
    case (JsNum s' m' e')
    then show ?thesis using w \<open>x = JsNum s m e\<close> wf_js_sign [of s m' e' s'] by (simp add: js_div_def)
  next
    case (JsInf s')
    then show ?thesis using \<open>x = JsNum s m e\<close> by (simp add: js_div_def wf_js_def)
  qed
qed (simp add: js_div_def wf_js_def)

text \<open>A well-formed double is its own Number value.\<close>

lemma to_number_double:
  assumes "wf_js (JsNum s m e)" "0 < m"
  shows "to_number (js_val (JsNum s m e)) = JsNum s m e"
proof -
  have m: "2 ^ 52 \<le> m" "m < 2 ^ 53" "e \<le> 971" using assms by (simp_all add: wf_js_def)
  define v where "v = js_val (JsNum s m e)"
  have av: "\<bar>v\<bar> = of_nat m * 2 powi e" by (simp add: v_def js_val_def abs_mult)
  have v0: "v \<noteq> 0" using assms(2) av by auto
  have p: "0 < of_nat m * (2::rat) powi e" using assms(2) by simp
  have sv: "(v < 0) = s"
  proof (cases s)
    case True
    then have "v = - (of_nat m * 2 powi e)" by (simp add: v_def js_val_def)
    then show ?thesis using True p by linarith
  next
    case False
    then have "v = of_nat m * 2 powi e" by (simp add: v_def js_val_def)
    then show ?thesis using False p by linarith
  qed
  have q: "\<bar>v\<bar> / 2 powi e = of_nat m" by (simp add: av)
  have mb: "(2::rat) ^ 52 \<le> of_nat m" "(of_nat m :: rat) < 2 ^ 53"
    using m by (simp_all add: numeral_pow_le_of_nat of_nat_less_numeral_pow)
  have b: "binade \<bar>v\<bar> = e"
    using v0 mb by (intro binade_eqI) (simp_all add: q)
  have r: "round_half_even (\<bar>v\<bar> / 2 powi e) = int m"
    unfolding q using round_half_even_of_int [of "int m"] by simp
  have "round_double v = JsNum s m e"
    using v0 m sv by (simp add: round_double_def Let_def b r)
  then show ?thesis using m by (simp add: to_number_def v_def)
qed

subsection \<open>Evaluation on concrete values\<close>

text \<open>
  The exponent of a concrete value is determined by its bounds, and the floor of a
  numeral fraction is a numeral division, so \<open>simp\<close> computes concrete doubles.
\<close>

lemma floor_numeral_div [simp, eval_simps]: "\<lfloor>(numeral a :: rat) / numeral b\<rfloor> = numeral a div numeral b"
  using floor_divide_of_int_eq [of "numeral a" "numeral b", where 'a = rat] by simp

subsection \<open>Evaluation rules\<close>

text \<open>Rounding unfolds on a concrete rational once its exponent is given by \<open>binade_eqI\<close>.\<close>

declare js_val_def [eval_simps]
  js_sign_def [eval_simps]
  js_finite_def [eval_simps]
  round_half_even_def [eval_simps]
  round_double_def [eval_simps]
  to_number_def [eval_simps]
  number_of_bigint_def [eval_simps]
  js_div_def [eval_simps]

subsection \<open>The doubles the program forms are well formed\<close>

text \<open>
  \<open>Number(balance)\<close> and the division by \<open>LAMPORTS_PER_SOL\<close> only produce
  well-formed doubles: \<open>Infinity\<close> or a significand below \<open>2^53\<close>, normalised to at
  least \<open>2^52\<close> unless zero, with an exponent of at most 971 (a finite binary64 value).
\<close>

lemma js_results_wf: "wf_js (number_of_bigint l) \<and> wf_js (js_div x c)"
  by (simp add: number_of_bigint_def wf_to_number wf_js_div)

end
