(* ===== verification/ToFixed.thy ===== *)
theory ToFixed
  imports JsNumber
begin

text \<open>
  \<open>Number.prototype.toFixed(f)\<close>, which \<open>formatSol\<close> applies to the SOL quotient
  (SignedInScreen.tsx line 130), with the branch it takes for values of \<open>10^21\<close> and
  more: \<open>Number::toString\<close>, whose result there is in exponent notation.  ECMAScript
  (Number::toString, step 5) takes the least \<open>k\<close> for which some \<open>k\<close>-digit
  integer \<open>s\<close> and exponent \<open>n\<close> have \<open>s * 10^(n-k)\<close> round to the value, \<open>s\<close> the
  one nearest to it, ties to even.  The nearest \<open>k\<close>-digit \<open>s\<close> is
  \<open>digit_candidate\<close>; \<open>shortest_k\<close> tries \<open>k = 1, 2, ...\<close> and stops at the
  first that round-trips, or at \<open>n\<close>, where an integer value is printed in full.
  The candidates of a \<open>k\<close> other than the nearest one lie farther from the value, so they
  round-trip only when the nearest one does; the search therefore finds the least
  \<open>k\<close> of the specification.
\<close>

subsection \<open>The fixed-point layout\<close>

definition fixed_string :: "nat \<Rightarrow> nat \<Rightarrow> string" where
  "fixed_string f n = (let m = show_nat n; k = length m in
     if f = 0 then m
     else let m' = (if k \<le> f then replicate (f + 1 - k) CHR ''0'' @ m else m); k' = length m'
          in take (k' - f) m' @ CHR ''.'' # drop (k' - f) m')"

subsection \<open>Shortest round-tripping digits\<close>

text \<open>\<open>dec_digits x\<close>: the number \<open>n\<close> of digits of the integer part, \<open>10^(n-1) \<le> x < 10^n\<close> for \<open>x \<ge> 1\<close>.\<close>

definition dec_digits :: "rat \<Rightarrow> nat" where
  "dec_digits x = length (show_nat (nat \<lfloor>x\<rfloor>))"

definition digit_candidate :: "rat \<Rightarrow> nat \<Rightarrow> nat \<Rightarrow> int" where
  "digit_candidate x n k = round_half_even (x / 10 powi (int n - int k))"

definition digits_ok :: "rat \<Rightarrow> nat \<Rightarrow> nat \<Rightarrow> bool" where
  "digits_ok x n k \<longleftrightarrow> js_val (to_number (of_int (digit_candidate x n k) * 10 powi (int n - int k))) = x"

function shortest_k :: "rat \<Rightarrow> nat \<Rightarrow> nat \<Rightarrow> nat" where
  "shortest_k x n k = (if n \<le> k \<or> digits_ok x n k then k else shortest_k x n (Suc k))"
  by pat_completeness auto
termination by (relation "measure (\<lambda>(x, n, k). n - k)") auto

declare shortest_k.simps [simp del]

text \<open>
  Number::toString of a value \<open>x \<ge> 10^21\<close>: \<open>n > 21\<close>, so the digits of \<open>s\<close> are
  printed with a point after the first (when there are several), then \<open>e+\<close> and
  \<open>n - 1\<close>.  A candidate that rounds up to \<open>10^k\<close> is the \<open>k\<close>-digit
  \<open>10^(k-1)\<close> with the exponent one higher.
\<close>

definition to_string_large :: "rat \<Rightarrow> string" where
  "to_string_large x = (let
      n0 = dec_digits x;
      k = shortest_k x n0 1;
      s0 = digit_candidate x n0 k;
      s = (if s0 = 10 ^ k then 10 ^ (k - 1) else s0);
      n = (if s0 = 10 ^ k then n0 + 1 else n0);
      d = show_nat (nat s)
    in (if k = 1 then d else hd d # CHR ''.'' # tl d) @ ''e+'' @ show_nat (n - 1))"

text \<open>
  Reading a string in exponent notation \<open>m e+p\<close> back as the rational \<open>m * 10^p\<close>,
  the value the specification's "the Number value for s * 10^(n-k)" is taken of.
\<close>

definition parse_exp :: "string \<Rightarrow> rat option" where
  "parse_exp str = (case dropWhile (\<lambda>c. c \<noteq> CHR ''e'') str of
      c # d # ds \<Rightarrow>
        if c = CHR ''e'' \<and> d = CHR ''+'' \<and> ds \<noteq> [] \<and> list_all is_digit ds
        then map_option (\<lambda>v. v * 10 ^ read_nat ds) (parse_unsigned (takeWhile (\<lambda>c. c \<noteq> CHR ''e'') str))
        else None
    | _ \<Rightarrow> None)"

subsection \<open>\<open>toFixed\<close>\<close>

text \<open>
  ECMAScript \<open>toFixed(f)\<close>: a value that is not finite is printed by
  Number::toString (\<open>Infinity\<close>, \<open>-Infinity\<close>); if \<open>x < 0\<close> the result starts
  with \<open>-\<close> and \<open>x\<close> is negated; if \<open>x \<ge> 10^21\<close> the rest is \<open>ToString(x)\<close>;
  otherwise \<open>n\<close> is the integer nearest to \<open>x * 10^f\<close>, the larger one on a tie,
  printed with at least \<open>f + 1\<close> digits and a point before the last \<open>f\<close>.
\<close>

definition to_fixed :: "nat \<Rightarrow> js_number \<Rightarrow> string" where
  "to_fixed f x = (case x of
      JsInf s \<Rightarrow> (if s then ''-Infinity'' else ''Infinity'')
    | JsNum _ _ _ \<Rightarrow> (let v = js_val x; a = \<bar>v\<bar> in
        (if v < 0 then ''-'' else []) @
        (if 10 ^ 21 \<le> a then to_string_large a
         else fixed_string f (nat \<lfloor>a * 10 ^ f + 1/2\<rfloor>))))"

subsection \<open>Layout of the fixed-point string\<close>

lemma to_fixed_finite:
  assumes "js_finite x"
  shows "to_fixed f x = (if js_val x < 0 then ''-'' else []) @
           (if 10 ^ 21 \<le> \<bar>js_val x\<bar> then to_string_large \<bar>js_val x\<bar>
            else fixed_string f (nat \<lfloor>\<bar>js_val x\<bar> * 10 ^ f + 1/2\<rfloor>))"
  using assms by (cases x) (simp_all add: to_fixed_def js_finite_def Let_def)

lemma fixed_string_split:
  assumes "0 < f"
  shows "\<exists>a b. fixed_string f n = a @ CHR ''.'' # b \<and> a \<noteq> [] \<and> list_all is_digit a \<and>
                length b = f \<and> list_all is_digit b \<and> read_nat (a @ b) = n"
proof -
  define m where "m = show_nat n"
  define m' where "m' = (if length m \<le> f then replicate (f + 1 - length m) CHR ''0'' @ m else m)"
  have len: "f < length m'" by (simp add: m'_def)
  have dig: "list_all is_digit m'"
    by (auto simp: m'_def m_def list_all_iff dest: show_nat_digits)
  have val: "read_nat m' = n" by (simp add: m'_def m_def)
  have fs: "fixed_string f n = take (length m' - f) m' @ CHR ''.'' # drop (length m' - f) m'"
    using assms by (simp add: fixed_string_def m_def [symmetric] m'_def [symmetric] Let_def)
  show ?thesis
  proof (intro exI conjI)
    show "fixed_string f n = take (length m' - f) m' @ CHR ''.'' # drop (length m' - f) m'" by (rule fs)
    show "take (length m' - f) m' \<noteq> []" using len by (cases m') auto
    show "length (drop (length m' - f) m') = f" using len by simp
    show "list_all is_digit (take (length m' - f) m')" "list_all is_digit (drop (length m' - f) m')"
      using dig by (auto simp: list_all_iff dest: in_set_takeD in_set_dropD)
    show "read_nat (take (length m' - f) m' @ drop (length m' - f) m') = n" by (simp add: val)
  qed
qed


subsection \<open>The digit search finds the least round-tripping digit count\<close>

lemma shortest_k_spec:
  assumes "k \<le> n" "digits_ok x n n"
  shows "k \<le> shortest_k x n k \<and> shortest_k x n k \<le> n \<and> digits_ok x n (shortest_k x n k) \<and>
         (\<forall>j. k \<le> j \<and> j < shortest_k x n k \<longrightarrow> \<not> digits_ok x n j)"
  using assms
proof (induction x n k rule: shortest_k.induct)
  case (1 x n k)
  show ?case
  proof (cases "n \<le> k \<or> digits_ok x n k")
    case True
    then have r: "shortest_k x n k = k" by (subst shortest_k.simps) simp
    have "digits_ok x n k" using True "1.prems" by (cases "n \<le> k") (simp_all add: le_antisym)
    then show ?thesis using r "1.prems" by auto
  next
    case False
    then have r: "shortest_k x n k = shortest_k x n (Suc k)" by (subst shortest_k.simps) simp
    have "Suc k \<le> n" using False by simp
    with "1.IH" [OF False _ "1.prems"(2)] have ih:
      "Suc k \<le> shortest_k x n (Suc k) \<and> shortest_k x n (Suc k) \<le> n \<and>
       digits_ok x n (shortest_k x n (Suc k)) \<and>
       (\<forall>j. Suc k \<le> j \<and> j < shortest_k x n (Suc k) \<longrightarrow> \<not> digits_ok x n j)" by blast
    have "\<not> digits_ok x n j" if "k \<le> j" "j < shortest_k x n (Suc k)" for j
      using that ih False by (cases "j = k") auto
    then show ?thesis using ih r by auto
  qed
qed

lemma shortest_k_least:
  assumes "k \<le> n" "digits_ok x n n"
  shows "shortest_k x n k = (LEAST j. k \<le> j \<and> digits_ok x n j)"
proof (rule Least_equality [symmetric])
  show "k \<le> shortest_k x n k \<and> digits_ok x n (shortest_k x n k)"
    using shortest_k_spec [OF assms] by blast
  show "shortest_k x n k \<le> j" if "k \<le> j \<and> digits_ok x n j" for j
    using shortest_k_spec [OF assms] that not_le by blast
qed

subsection \<open>The printed digits read back to the tested value\<close>

lemma parse_exp_print:
  assumes d: "d \<noteq> []" "list_all is_digit d"
  shows "parse_exp ((if length d = 1 then d else hd d # CHR ''.'' # tl d) @ ''e+'' @ show_nat p) =
           Some (of_nat (read_nat d) / 10 ^ (length d - 1) * 10 ^ p)"
proof -
  define body where "body = (if length d = 1 then d else hd d # CHR ''.'' # tl d)"
  have ne: "\<forall>c\<in>set body. c \<noteq> CHR ''e''"
    using d by (cases d) (auto simp: body_def list_all_iff)
  have tw: "takeWhile (\<lambda>c. c \<noteq> CHR ''e'') (body @ ''e+'' @ show_nat p) = body"
    using ne by simp
  have dw: "dropWhile (\<lambda>c. c \<noteq> CHR ''e'') (body @ ''e+'' @ show_nat p) = CHR ''e'' # CHR ''+'' # show_nat p"
    using ne by simp
  have sd: "list_all is_digit (show_nat p)" by (auto simp: list_all_iff dest: show_nat_digits)
  have pu: "parse_unsigned body = Some (of_nat (read_nat d) / 10 ^ (length d - 1))"
  proof (cases "length d = 1")
    case True
    then show ?thesis using d by (simp add: body_def parse_unsigned_int)
  next
    case False
    then obtain c t where ct: "d = c # t" "t \<noteq> []" using d by (cases d) auto
    have "parse_unsigned ([c] @ CHR ''.'' # t) = Some (of_nat (read_nat ([c] @ t)) / 10 ^ length t)"
      using d ct by (intro parse_unsigned_point) simp_all
    then show ?thesis using False ct by (simp add: body_def)
  qed
  show ?thesis
    using sd pu unfolding body_def [symmetric] parse_exp_def tw dw by simp
qed

lemma digit_candidate_bounds:
  assumes N: "10 ^ (n - 1) \<le> N" "N < 10 ^ n" and k: "1 \<le> k" "k \<le> n"
  shows "10 ^ (k - 1) \<le> digit_candidate (of_nat N) n k \<and> digit_candidate (of_nat N) n k \<le> 10 ^ k"
proof -
  define v where "v = (of_nat N :: rat) / 10 ^ (n - k)"
  have pw: "(10::rat) powi (int n - int k) = 10 ^ (n - k)"
    using k by (simp add: power_int_def nat_diff_distrib)
  have dc: "digit_candidate (of_nat N) n k = round_half_even v"
    by (simp add: digit_candidate_def pw v_def)
  have e1: "(10::rat) ^ (k - 1) * 10 ^ (n - k) = 10 ^ (n - 1)"
    using k by (simp add: power_add [symmetric])
  have e2: "(10::rat) ^ k * 10 ^ (n - k) = 10 ^ n"
    using k by (simp add: power_add [symmetric])
  have "(10::rat) ^ (n - 1) \<le> of_nat N" using N(1) by (rule numeral_pow_le_of_nat)
  then have lo: "10 ^ (k - 1) \<le> v" unfolding v_def using e1 by (simp add: le_divide_eq)
  have "(of_nat N :: rat) < 10 ^ n" using N(2) by (rule of_nat_less_numeral_pow)
  then have hi: "v < 10 ^ k" unfolding v_def using e2 by (simp add: divide_less_eq)
  have "(10::int) ^ (k - 1) \<le> \<lfloor>v\<rfloor>" using lo by (simp add: le_floor_iff)
  moreover have "\<lfloor>v\<rfloor> < (10::int) ^ k" using hi by (simp add: floor_less_iff)
  ultimately show ?thesis using round_half_even_floor [of v] by (simp add: dc)
qed

lemma large_double_integer:
  assumes "wf_js x" "js_finite x" "10 ^ 21 \<le> js_val x"
  obtains m e where "x = JsNum False m e" "0 < m" "js_val x = of_nat (m * 2 ^ nat e)"
proof -
  obtain s m e where x: "x = JsNum s m e" using assms(2) by (cases x) (simp_all add: js_finite_def)
  have m53: "m < 2 ^ 53" using assms(1) x by (simp add: wf_js_def)
  have v: "js_val x = (if s then -1 else 1) * of_nat m * 2 powi e" by (simp add: x js_val_def)
  have pos: "0 < js_val x" using assms(3) by (rule less_le_trans [rotated]) simp
  have p2: "(0::rat) < 2 powi e" by simp
  have s: "\<not> s"
  proof
    assume s: s
    then have "js_val x = - (of_nat m * 2 powi e)" using v by simp
    moreover have "0 \<le> of_nat m * (2::rat) powi e" using p2 by simp
    ultimately show False using pos by linarith
  qed
  have m: "0 < m"
  proof (rule ccontr)
    assume "\<not> 0 < m"
    then have "js_val x = 0" using v by simp
    then show False using pos by simp
  qed
  have "0 \<le> e"
  proof (rule ccontr)
    assume "\<not> 0 \<le> e"
    then have "(2::rat) powi e \<le> 2 powi 0" by (intro power_int_increasing) simp_all
    then have "js_val x \<le> of_nat m" using v s by (simp add: mult_left_le)
    also have "\<dots> < 2 ^ 53" using m53 by (rule of_nat_less_numeral_pow)
    finally show False using assms(3) by simp
  qed
  then have "js_val x = of_nat (m * 2 ^ nat e)"
    using v s by (simp add: power_int_def)
  then show ?thesis using that x s m by blast
qed

lemma to_string_large_reads_back:
  assumes "wf_js x" "js_finite x" "10 ^ 21 \<le> js_val x"
  shows "\<exists>r. parse_exp (to_string_large (js_val x)) = Some r \<and> js_val (to_number r) = js_val x"
proof -
  obtain m e where x: "x = JsNum False m e" and m: "0 < m" and vN: "js_val x = of_nat (m * 2 ^ nat e)"
    using large_double_integer [OF assms] by blast
  define N where "N = m * 2 ^ nat e"
  define X where "X = js_val x"
  have XN: "X = of_nat N" by (simp add: X_def N_def vN)
  have N0: "0 < N" using m by (simp add: N_def)
  define n where "n = length (show_nat N)"
  have dd: "dec_digits X = n" by (simp add: dec_digits_def XN n_def)
  have Nhi: "N < 10 ^ n" using show_nat_length_upper by (simp add: n_def)
  have Nlo: "10 ^ (n - 1) \<le> N" using show_nat_length_lower [of N] N0 by (simp add: n_def)
  have n1: "1 \<le> n" using show_nat_not_Nil [of N] by (simp add: n_def Suc_le_eq)
  have tn: "js_val (to_number X) = X"
    using to_number_double [of False m e] assms(1) m by (simp add: X_def x)
  have okn: "digits_ok X n n"
    using tn by (simp add: digits_ok_def digit_candidate_def XN)
  define k where "k = shortest_k X n 1"
  have k: "1 \<le> k" "k \<le> n" "digits_ok X n k"
    using shortest_k_spec [OF n1 okn] by (simp_all add: k_def)
  define s0 where "s0 = digit_candidate X n k"
  have s0b: "10 ^ (k - 1) \<le> s0" "s0 \<le> 10 ^ k"
    using digit_candidate_bounds [OF Nlo Nhi k(1,2)] by (simp_all add: s0_def XN)
  define s where "s = (if s0 = 10 ^ k then 10 ^ (k - 1) else s0)"
  define np where "np = (if s0 = 10 ^ k then n + 1 else n)"
  have sb: "10 ^ (k - 1) \<le> s" "s < 10 ^ k"
    using s0b k(1) by (auto simp: s_def intro: power_strict_increasing)
  have pw: "(10::rat) powi (int n - int k) = 10 ^ (n - k)"
    using k by (simp add: power_int_def nat_diff_distrib)
  have val: "(of_int s :: rat) * 10 ^ (np - k) = of_int s0 * 10 powi (int n - int k)"
  proof (cases "s0 = 10 ^ k")
    case True
    have "(10::rat) ^ (k - 1) * 10 ^ (n + 1 - k) = 10 ^ k * 10 ^ (n - k)"
      using k by (simp add: power_add [symmetric])
    then show ?thesis using True by (simp add: s_def np_def pw)
  qed (simp add: s_def np_def pw)
  define d where "d = show_nat (nat s)"
  have ld: "length d = k"
  proof -
    have "10 ^ (k - 1) \<le> nat s" "nat s < 10 ^ k" using sb by (simp_all add: le_nat_iff nat_less_iff)
    then show ?thesis unfolding d_def using k(1) by (intro length_show_nat) simp_all
  qed
  have dg: "d \<noteq> []" "list_all is_digit d" by (auto simp: d_def list_all_iff dest: show_nat_digits)
  have str: "to_string_large X = (if k = 1 then d else hd d # CHR ''.'' # tl d) @ ''e+'' @ show_nat (np - 1)"
    unfolding to_string_large_def Let_def dd k_def [symmetric] s0_def [symmetric] s_def [symmetric]
      np_def [symmetric] d_def [symmetric] by (rule refl)
  have rd: "read_nat d = nat s" by (simp add: d_def)
  have "(of_nat (read_nat d) :: rat) / 10 ^ (length d - 1) * 10 ^ (np - 1) = of_int s * 10 ^ (np - k)"
  proof -
    have "np - 1 = (k - 1) + (np - k)" using k np_def by auto
    then have "(10::rat) ^ (np - 1) = 10 ^ (k - 1) * 10 ^ (np - k)" by (simp add: power_add)
    moreover have "0 \<le> s" using sb(1) by (rule order_trans [rotated]) simp
    then have "(of_nat (nat s) :: rat) = of_int s" by (rule of_nat_nat)
    ultimately show ?thesis by (simp add: rd ld)
  qed
  then have "parse_exp (to_string_large X) = Some (of_int s0 * 10 powi (int n - int k))"
    using parse_exp_print [OF dg, of "np - 1"] by (simp add: str [folded ld] val)
  moreover have "js_val (to_number (of_int s0 * 10 powi (int n - int k))) = X"
    using k(3) by (simp add: digits_ok_def s0_def)
  ultimately show ?thesis by (auto simp: X_def)
qed

subsection \<open>Evaluation rules\<close>

text \<open>The printing functions unfold on concrete values; \<open>shortest_k\<close> is stepped explicitly, one \<open>digits_ok\<close> test at a time.\<close>

declare fixed_string_def [eval_simps]
  to_fixed_def [eval_simps]
  to_string_large_def [eval_simps]
  dec_digits_def [eval_simps]
  digit_candidate_def [eval_simps]
  digits_ok_def [eval_simps]

subsection \<open>The exponent branch reads back\<close>

text \<open>
  For a double of \<open>10^21\<close> or more \<open>toFixed\<close> prints \<open>ToString\<close>, and that string
  reads back (as \<open>m * 10^p\<close>) to a number whose double is the printed one: the exponent
  notation loses nothing.
\<close>

lemma to_fixed_large_roundtrip:
  assumes "wf_js x" "js_finite x" "10 ^ 21 \<le> js_val x"
  shows "to_fixed f x = to_string_large (js_val x) \<and>
         (\<exists>r. parse_exp (to_fixed f x) = Some r \<and> js_val (to_number r) = js_val x)"
proof -
  have "to_fixed f x = to_string_large (js_val x)"
    using assms(3) by (simp add: to_fixed_finite [OF assms(2)])
  then show ?thesis using to_string_large_reads_back [OF assms] by simp
qed

end
