(* ===== verification/FormatSol.thy ===== *)
theory FormatSol
  imports ToFixed
begin

text \<open>
  \<open>formatSol\<close> (SignedInScreen.tsx lines 128--132) turns a lamport count into the SOL
  amount shown on screen: it divides by \<open>LAMPORTS_PER_SOL\<close> in double arithmetic, prints
  the quotient with \<open>toFixed(9)\<close> and removes trailing zeros and a bare trailing point.
  The hook \<open>useSolanaBalance\<close> calls it as \<open>formatSol(Number(balance))\<close> (line 96).
  The main results: below \<open>2^23\<close> SOL (\<open>8388608 * 10^9\<close> lamports) the double
  arithmetic is exact, so the displayed string is the exact decimal value of
  \<open>balance / 10^9\<close>; from \<open>2^53\<close> lamports on it is not, but for every u64 balance
  the value shown is within half a unit of the ninth place plus \<open>2^-51\<close> of the value.
\<close>

definition LAMPORTS_PER_SOL :: nat where
  "LAMPORTS_PER_SOL = 1000000000"

definition formatSol :: "js_number \<Rightarrow> string" where
  "formatSol lamports = (let
      maxDecimalPlaces = 9;
      roundedStr = to_fixed maxDecimalPlaces (js_div lamports LAMPORTS_PER_SOL)
    in strip_dot (strip_zeros roundedStr))"

text \<open>The reference the specification describes: the exact decimal of \<open>n / 10^9\<close>.\<close>

definition sol_exact :: "nat \<Rightarrow> string" where
  "sol_exact n = strip_dot (strip_zeros (fixed_string 9 n))"

subsection \<open>The double quotient is within \<open>2^-31\<close> of the exact one\<close>

lemma lamports_quotient_error:
  assumes "0 < l" "l < 2 ^ 23 * 10 ^ 9"
  shows "\<bar>js_val (round_double (of_int l / 10 ^ 9)) - of_int l / 10 ^ 9\<bar> \<le> 1 / 2 ^ 31"
proof -
  define q where "q = (of_int l / 10 ^ 9 :: rat)"
  have q: "0 < q" "q < 2 ^ 23"
    using assms by (simp_all add: q_def)
  define e where "e = binade q"
  have bd: "2 ^ 52 \<le> q / 2 powi e"
    using binade_bounds [OF q(1)] by (simp add: e_def)
  have "e \<le> - 30"
  proof (rule ccontr)
    assume "\<not> e \<le> - 30"
    then have "(2::rat) powi (- 29) \<le> 2 powi e" by (intro power_int_increasing) simp_all
    then have "q / 2 powi e \<le> q / 2 powi (- 29)"
      using q by (intro divide_left_mono) simp_all
    also have "\<dots> = q * 2 ^ 29" by (simp add: power_int_minus)
    also have "\<dots> < 2 ^ 52" using q by simp
    finally show False using bd by simp
  qed
  then have "(2::rat) powi e \<le> 2 powi (- 30)" by (intro power_int_increasing) simp_all
  then have "(2::rat) powi e / 2 \<le> 1 / 2 ^ 31" by (simp add: power_int_minus)
  moreover have "\<bar>js_val (round_double q) - q\<bar> \<le> 2 powi e / 2"
    using round_double_error [of q] q by (simp add: e_def)
  ultimately show ?thesis by (simp add: q_def)
qed

text \<open>For a u64 balance the two conversions do not overflow and the quotient is finite.\<close>

lemma lamports_div:
  assumes "0 \<le> l" "l < 2 ^ 64"
  shows "number_of_bigint l = round_double (of_int l)"
    and "js_div (number_of_bigint l) LAMPORTS_PER_SOL = round_double (js_val (number_of_bigint l) / 10 ^ 9)"
proof -
  show nb: "number_of_bigint l = round_double (of_int l)"
    using assms by (intro number_of_bigint_round) simp
  define x where "x = js_val (number_of_bigint l)"
  have x0: "0 \<le> x" using assms by (simp add: x_def nb round_double_nonneg)
  have "x \<le> 2 * of_int l"
    using round_double_abs_le [of "of_int l"] assms x0 by (simp add: x_def nb)
  then have "x / 10 ^ 9 < 2 ^ 1023" using assms by simp
  moreover have "\<not> js_sign (number_of_bigint l)" using assms by (simp add: nb)
  ultimately show "js_div (number_of_bigint l) LAMPORTS_PER_SOL = round_double (js_val (number_of_bigint l) / 10 ^ 9)"
    using js_div_round [of "number_of_bigint l" LAMPORTS_PER_SOL] x0
    by (simp add: nb x_def LAMPORTS_PER_SOL_def)
qed

lemma to_fixed_lamports:
  assumes "0 \<le> l" "l < 2 ^ 23 * 10 ^ 9"
  shows "to_fixed 9 (js_div (number_of_bigint l) LAMPORTS_PER_SOL) = fixed_string 9 (nat l)"
proof -
  have l64: "l < 2 ^ 64" using assms by simp
  have x: "js_val (number_of_bigint l) = of_int l"
    using assms by (intro number_of_bigint_exact) simp
  have y: "js_div (number_of_bigint l) LAMPORTS_PER_SOL = round_double (of_int l / 10 ^ 9)"
    using lamports_div(2) [OF assms(1) l64] by (simp add: x)
  show ?thesis
  proof (cases "l = 0")
    case True
    show ?thesis unfolding y using True by (simp add: to_fixed_def round_double_def js_val_def)
  next
    case False
    define v where "v = js_val (round_double (of_int l / 10 ^ 9))"
    have err: "\<bar>v - of_int l / 10 ^ 9\<bar> \<le> 1 / 2 ^ 31"
      unfolding v_def using False assms by (intro lamports_quotient_error) simp_all
    then have "v - of_int l / 10 ^ 9 \<le> 1 / 2 ^ 31 \<and> - (v - of_int l / 10 ^ 9) \<le> 1 / 2 ^ 31"
      by (simp only: abs_le_iff)
    then have lo: "of_int l - 1/2 < v * 10 ^ 9" and hi: "v * 10 ^ 9 < of_int l + 1/2"
      by (simp_all add: field_simps)
    have l1: "(1::rat) \<le> of_int l" using False assms by simp
    have pos: "0 < v" using lo l1 by (simp add: zero_less_mult_iff)
    have small: "\<bar>v\<bar> < 10 ^ 21" using hi assms pos by simp
    have fl: "\<lfloor>\<bar>v\<bar> * 10 ^ 9 + 1/2\<rfloor> = l"
      using lo hi pos by (intro floor_unique) simp_all
    have yv: "js_val (js_div (number_of_bigint l) LAMPORTS_PER_SOL) = v"
      by (simp only: y v_def)
    show ?thesis
      unfolding to_fixed_finite [OF js_finite_round_double [of "of_int l / 10 ^ 9", folded y]] yv
      using pos small fl by simp
  qed
qed

lemma sol_exact_value: "parse_decimal (sol_exact n) = Some (of_nat n / 10 ^ 9)"
proof -
  obtain a b where fs: "fixed_string 9 n = a @ CHR ''.'' # b" and a: "a \<noteq> []" "list_all is_digit a"
    and b: "length b = 9" "list_all is_digit b" and v: "read_nat (a @ b) = n"
    using fixed_string_split [of 9 n] by auto
  obtain r where r: "strip_dot (strip_zeros (a @ CHR ''.'' # b)) = a @ r"
    using strip_point_prefix by blast
  have "b \<noteq> []" using b by auto
  then have "parse_unsigned (a @ r) = Some (of_nat n / 10 ^ 9)"
    using parse_strip_point [OF a _ b(2)] r b v by simp
  then show ?thesis
    by (simp add: sol_exact_def fs r parse_decimal_digits [OF a])
qed

lemma to_fixed_lamports_bounded:
  assumes "0 \<le> l" "l < 2 ^ 64"
  shows "to_fixed 9 (js_div (number_of_bigint l) LAMPORTS_PER_SOL) =
           fixed_string 9 (nat \<lfloor>\<bar>js_val (js_div (number_of_bigint l) LAMPORTS_PER_SOL)\<bar> * 10 ^ 9 + 1/2\<rfloor>)"
proof -
  define x where "x = js_val (number_of_bigint l)"
  have nb: "number_of_bigint l = round_double (of_int l)" by (rule lamports_div(1) [OF assms])
  have x0: "0 \<le> x" using assms by (simp add: x_def nb round_double_nonneg)
  have xb: "x \<le> 2 * of_int l"
    using round_double_abs_le [of "of_int l"] assms x0 by (simp add: x_def nb)
  define y where "y = js_val (round_double (x / 10 ^ 9))"
  have dv: "js_div (number_of_bigint l) LAMPORTS_PER_SOL = round_double (x / 10 ^ 9)"
    unfolding x_def by (rule lamports_div(2) [OF assms])
  have "\<bar>y\<bar> \<le> 2 * (x / 10 ^ 9)"
    using round_double_abs_le [of "x / 10 ^ 9"] x0 by (simp add: y_def)
  also have "\<dots> \<le> 4 * of_int l / 10 ^ 9" using xb by simp
  also have "\<dots> < 10 ^ 21" using assms by simp
  finally have "\<bar>y\<bar> < 10 ^ 21" .
  moreover have "0 \<le> y" using x0 by (simp add: y_def round_double_nonneg)
  ultimately show ?thesis
    unfolding dv to_fixed_finite [OF js_finite_round_double] by (simp add: y_def)
qed

subsection \<open>Concrete values\<close>

declare formatSol_def [eval_simps] LAMPORTS_PER_SOL_def [eval_simps] sol_exact_def [eval_simps]

text \<open>\<open>2^53\<close> lamports: the double \<open>2^52 * 2\<close> and its quotient \<open>4835703278458517 * 2^-29\<close>.\<close>

lemma formatSol_2p53_steps:
  "number_of_bigint 9007199254740992 = JsNum False 4503599627370496 1"
  "js_div (JsNum False 4503599627370496 1) LAMPORTS_PER_SOL = JsNum False 4835703278458517 (-29)"
  by (simp_all add: eval_simps binade_eqI [where e = 1] binade_eqI [where e = "-29"])

lemma to_fixed_2p53: "to_fixed 9 (JsNum False 4835703278458517 (-29)) = ''9007199.254740993''"
  by (simp add: to_fixed_def js_val_def fixed_string_def show_nat.simps)

text \<open>
  \<open>3 * 10^39\<close> lamports: the double \<open>4963083675318166 * 2^79\<close>, its quotient
  \<open>5329070518200751 * 2^49\<close> (the double nearest to \<open>3 * 10^30\<close>), printed by
  \<open>toFixed\<close> as \<open>3e+30\<close>.
\<close>

lemma formatSol_3e39_steps:
  "number_of_bigint 3000000000000000000000000000000000000000 = JsNum False 4963083675318166 79"
  "js_div (JsNum False 4963083675318166 79) LAMPORTS_PER_SOL = JsNum False 5329070518200751 49"
  by (simp_all add: eval_simps binade_eqI [where e = 79] binade_eqI [where e = 49])

lemma to_fixed_3e30: "to_fixed 9 (JsNum False 5329070518200751 49) = ''3e+30''"
proof -
  have ok: "digits_ok 2999999999999999778178897805312 31 1"
    by (simp add: eval_simps binade_eqI [where e = 49])
  have k: "shortest_k 2999999999999999778178897805312 31 1 = 1"
    using ok by (subst shortest_k.simps) simp
  have d: "dec_digits 2999999999999999778178897805312 = 31"
    by (simp add: eval_simps)
  show ?thesis
    by (simp add: eval_simps d k [unfolded One_nat_def] del: dec_digits_def)
qed

text \<open>
  From \<open>2^53\<close> lamports on the display is not the exact value: \<open>2^53\<close> lamports
  (exactly representable as a double) show as \<open>9007199.254740993\<close>, which is not
  \<open>2^53 / 10^9 = 9007199.254740992\<close>; the quotient's double has no nine exact decimals.
\<close>

lemma formatSol_inexact_2p53:
  "formatSol (number_of_bigint (2 ^ 53)) = ''9007199.254740993'' \<and>
   parse_decimal ''9007199.254740993'' \<noteq> Some (2 ^ 53 / 10 ^ 9)"
  by (simp add: formatSol_def Let_def formatSol_2p53_steps to_fixed_2p53 strip_zeros_def strip_dot_def
                parse_decimal_def parse_unsigned_def read_nat_def digit_val_def is_digit_def)

text \<open>
  For a quotient of \<open>10^21\<close> or more the regular expression \<open>/0+$/\<close>, meant for the zeros of a
  fraction, also cuts the exponent: \<open>3 * 10^39\<close> lamports give \<open>toFixed(9) =
  3e+30\<close> and \<open>formatSol\<close> shows \<open>3e+3\<close>, a value \<open>10^27\<close> times too small.
\<close>

lemma formatSol_exponent_cut:
  "to_fixed 9 (js_div (number_of_bigint (3 * 10 ^ 39)) LAMPORTS_PER_SOL) = ''3e+30'' \<and>
   formatSol (number_of_bigint (3 * 10 ^ 39)) = ''3e+3''"
  by (simp add: formatSol_def Let_def formatSol_3e39_steps to_fixed_3e30 strip_zeros_def strip_dot_def)

subsection \<open>The rounding of a u64 balance\<close>

lemma formatSol_u64_sol_exact:
  assumes "0 \<le> l" "l < 2 ^ 64"
  shows "formatSol (number_of_bigint l) =
           sol_exact (nat \<lfloor>\<bar>js_val (js_div (number_of_bigint l) LAMPORTS_PER_SOL)\<bar> * 10 ^ 9 + 1/2\<rfloor>)"
  using to_fixed_lamports_bounded [OF assms] by (simp add: formatSol_def sol_exact_def)

subsection \<open>What the screen shows for a Solana balance\<close>

text \<open>
  C1.  Below \<open>2^23\<close> SOL the double arithmetic of \<open>formatSol(Number(balance))\<close> is
  exact: the result is the exact nine-place decimal of \<open>balance / 10^9\<close> with trailing
  zeros and a bare point removed.
\<close>

theorem formatSol_exact:
  assumes "0 \<le> l" "l < 2 ^ 23 * 10 ^ 9"
  shows "formatSol (number_of_bigint l) = sol_exact (nat l)"
  using to_fixed_lamports [OF assms] by (simp add: formatSol_def sol_exact_def)


text \<open>
  C2.  In the same range the string shown denotes exactly \<open>balance / 10^9\<close> SOL, the
  specification's property of the non-EVM formatter.
\<close>

theorem formatSol_denotes:
  assumes "0 \<le> l" "l < 2 ^ 23 * 10 ^ 9"
  shows "parse_decimal (formatSol (number_of_bigint l)) = Some (of_int l / 10 ^ 9)"
proof -
  have "formatSol (number_of_bigint l) = sol_exact (nat l)"
    using to_fixed_lamports [OF assms] by (simp add: formatSol_def sol_exact_def)
  moreover have "parse_decimal (sol_exact (nat l)) = Some (of_int l / 10 ^ 9)"
    using sol_exact_value [of "nat l"] assms by simp
  ultimately show ?thesis by simp
qed

text \<open>
  C3.  For every balance a Solana account can hold (a u64 lamport count) the string shown
  reads as a decimal within half a unit of the ninth place plus \<open>2^-51\<close> of the value
  from the exact amount \<open>balance / 10^9\<close>: the two roundings of the double arithmetic and
  the rounding of \<open>toFixed(9)\<close> are all the error there is.
\<close>

theorem formatSol_u64_error:
  assumes "0 \<le> l" "l < 2 ^ 64"
  shows "\<exists>v. parse_decimal (formatSol (number_of_bigint l)) = Some v \<and>
             \<bar>v - of_int l / 10 ^ 9\<bar> \<le> 1 / (2 * 10 ^ 9) + of_int l / 10 ^ 9 / 2 ^ 51"
proof -
  define L where "L = (of_int l :: rat)"
  define x where "x = js_val (number_of_bigint l)"
  define y where "y = js_val (js_div (number_of_bigint l) LAMPORTS_PER_SOL)"
  define n where "n = nat \<lfloor>\<bar>y\<bar> * 10 ^ 9 + 1/2\<rfloor>"
  have L0: "0 \<le> L" using assms by (simp add: L_def)
  have xr: "x = js_val (round_double L)" using lamports_div(1) [OF assms] by (simp add: x_def L_def)
  have ex: "\<bar>x - L\<bar> \<le> L / 2 ^ 53" using round_double_rel_error [of L] L0 by (simp add: xr)
  have x0: "0 \<le> x" using L0 by (simp add: xr round_double_nonneg)
  have yr: "y = js_val (round_double (x / 10 ^ 9))" using lamports_div(2) [OF assms] by (simp add: y_def x_def)
  have ey: "\<bar>y - x / 10 ^ 9\<bar> \<le> x / 10 ^ 9 / 2 ^ 53"
    using round_double_rel_error [of "x / 10 ^ 9"] x0 by (simp add: yr)
  have y0: "0 \<le> y" using x0 by (simp add: yr round_double_nonneg)
  have fl: "of_int \<lfloor>y * 10 ^ 9 + 1/2\<rfloor> \<le> y * 10 ^ 9 + 1/2" "y * 10 ^ 9 + 1/2 < of_int \<lfloor>y * 10 ^ 9 + 1/2\<rfloor> + 1"
    by linarith+
  have n0: "0 \<le> \<lfloor>y * 10 ^ 9 + 1/2\<rfloor>" using y0 by simp
  have nv: "(of_nat n :: rat) = of_int \<lfloor>y * 10 ^ 9 + 1/2\<rfloor>" using y0 n0 by (simp add: n_def)
  have d: "\<bar>of_nat n - y * 10 ^ 9\<bar> \<le> 1 / 2" unfolding nv using fl by linarith
  have "of_nat n / 10 ^ 9 - y = (of_nat n - y * 10 ^ 9) / 10 ^ 9" by (simp add: field_simps)
  then have "\<bar>of_nat n / 10 ^ 9 - y\<bar> = \<bar>of_nat n - y * 10 ^ 9\<bar> / 10 ^ 9"
    by (simp only: abs_divide) simp
  then have en: "\<bar>of_nat n / 10 ^ 9 - y\<bar> \<le> 1 / (2 * 10 ^ 9)"
    using divide_right_mono [OF d, of "10 ^ 9"] by simp
  have "\<bar>of_nat n / 10 ^ 9 - L / 10 ^ 9\<bar> \<le> 1 / (2 * 10 ^ 9) + x / 10 ^ 9 / 2 ^ 53 + L / 10 ^ 9 / 2 ^ 53"
  proof -
    have "\<bar>x / 10 ^ 9 - L / 10 ^ 9\<bar> \<le> L / 10 ^ 9 / 2 ^ 53"
      using ex by (simp add: abs_le_iff field_simps)
    then show ?thesis using en ey by linarith
  qed
  also have "\<dots> \<le> 1 / (2 * 10 ^ 9) + L / 10 ^ 9 / 2 ^ 51"
  proof -
    have "L / 2 ^ 53 \<le> L" using L0 by (simp add: divide_le_eq)
    then have "x \<le> 2 * L" using ex by linarith
    then show ?thesis using L0 by (simp add: field_simps)
  qed
  finally have b: "\<bar>of_nat n / 10 ^ 9 - L / 10 ^ 9\<bar> \<le> 1 / (2 * 10 ^ 9) + L / 10 ^ 9 / 2 ^ 51" .
  have "parse_decimal (formatSol (number_of_bigint l)) = Some (of_nat n / 10 ^ 9)"
    using formatSol_u64_sol_exact [OF assms] sol_exact_value [of n] by (simp add: n_def y_def)
  then show ?thesis using b unfolding L_def by blast
qed

subsection \<open>Witnesses\<close>

theorem formatSol_exact_witness:
  "0 \<le> (1500000000::int) \<and> (1500000000::int) < 2 ^ 23 * 10 ^ 9 \<and>
   formatSol (number_of_bigint 1500000000) = sol_exact 1500000000"
  using formatSol_exact [of 1500000000] by simp

theorem formatSol_denotes_witness:
  "0 \<le> (123456789012::int) \<and> (123456789012::int) < 2 ^ 23 * 10 ^ 9 \<and>
   parse_decimal (formatSol (number_of_bigint 123456789012)) = Some (of_int 123456789012 / 10 ^ 9)"
  using formatSol_denotes [of 123456789012] by simp

theorem formatSol_u64_error_witness:
  "0 \<le> (9007199254740992::int) \<and> (9007199254740992::int) < 2 ^ 64 \<and>
   (\<exists>v. parse_decimal (formatSol (number_of_bigint 9007199254740992)) = Some v \<and>
      \<bar>v - of_int 9007199254740992 / 10 ^ 9\<bar> \<le> 1 / (2 * 10 ^ 9) + of_int 9007199254740992 / 10 ^ 9 / 2 ^ 51)"
proof -
  have h1: "0 \<le> (9007199254740992::int)" by simp
  have h2: "(9007199254740992::int) < 2 ^ 64" by simp
  show ?thesis using h1 h2 formatSol_u64_error [OF h1 h2] by blast
qed

end
