(* ===== verification/FormatUnits.thy ===== *)
theory FormatUnits
  imports Decimal
begin

text \<open>
  viem's \<open>formatEther\<close>, which \<open>useEvmBalance\<close> applies to the wei balance
  (SignedInScreen.tsx line 69).  It is library code, not part of the repository, so it is
  modelled from the specification ("a standard fixed-point-to-decimal-string conversion, 18
  decimal places") following viem's \<open>formatUnits(value, decimals)\<close>: print the
  integer, take off the sign, pad to \<open>decimals\<close> digits with leading zeros, split off the
  last \<open>decimals\<close> digits as the fraction, cut its trailing zeros, and join integer part
  (\<open>0\<close> when empty) and fraction (with a point when not empty).
\<close>

definition pad_start :: "nat \<Rightarrow> char \<Rightarrow> string \<Rightarrow> string" where
  "pad_start n c s = replicate (n - length s) c @ s"

definition formatUnits :: "bigint \<Rightarrow> nat \<Rightarrow> string" where
  "formatUnits value decimals = (let
      display0 = show_int value;
      negative = (take 1 display0 = ''-'');
      display1 = (if negative then drop 1 display0 else display0);
      display = pad_start decimals CHR ''0'' display1;
      integer = take (length display - decimals) display;
      fraction = strip_zeros (drop (length display - decimals) display)
    in (if negative then ''-'' else []) @ (if integer = [] then ''0'' else integer) @ point_fraction fraction)"

definition formatEther :: "bigint \<Rightarrow> string" where
  "formatEther wei = formatUnits wei 18"

subsection \<open>The shape and value of a formatted amount\<close>

text \<open>
  Every result is an optional minus sign, a non-empty digit string and a fraction of at most
  \<open>decimals\<close> digits with its trailing zeros cut; the digits read back to
  \<open>|value|\<close> scaled by \<open>10^decimals\<close>.
\<close>

lemma formatUnits_shape:
  "\<exists>i f. formatUnits v d = (if v < 0 then ''-'' else []) @ i @ point_fraction (strip_zeros f) \<and>
     i \<noteq> [] \<and> list_all is_digit i \<and> list_all is_digit f \<and> length f = d \<and>
     read_nat (i @ f) = nat \<bar>v\<bar>"
proof -
  define n where "n = nat \<bar>v\<bar>"
  define ds where "ds = pad_start d CHR ''0'' (show_nat n)"
  define i where "i = take (length ds - d) ds"
  define f where "f = drop (length ds - d) ds"
  have len: "d \<le> length ds" by (simp add: ds_def pad_start_def)
  have dig: "list_all is_digit ds"
    by (auto simp: ds_def pad_start_def list_all_iff dest: show_nat_digits)
  have digi: "list_all is_digit i" and digf: "list_all is_digit f"
    using dig by (auto simp: i_def f_def list_all_iff dest: in_set_takeD in_set_dropD)
  have lf: "length f = d" using len by (simp add: f_def)
  have "i @ f = ds" by (simp add: i_def f_def)
  then have rd: "read_nat (i @ f) = n" by (simp add: ds_def pad_start_def)
  define i' where "i' = (if i = [] then ''0'' else i)"
  have i': "i' \<noteq> []" "list_all is_digit i'" "read_nat (i' @ f) = n"
    using digi rd read_nat_zeros [of 1] read_nat_zeros [of 0] by (auto simp: i'_def read_nat_append)
  have hd: "(take 1 (show_nat n) = ''-'') = False"
    using show_nat_hd [of n] by (cases "show_nat n") simp_all
  have body: "formatUnits v d = (if v < 0 then ''-'' else []) @ i' @ point_fraction (strip_zeros f)"
  proof (cases "v < 0")
    case True
    then have sv: "show_int v = CHR ''-'' # show_nat n" by (simp add: show_int_neg n_def)
    show ?thesis
      unfolding formatUnits_def Let_def sv using True
      by (simp add: ds_def [symmetric] i_def [symmetric] f_def [symmetric] i'_def)
  next
    case False
    then have sv: "show_int v = show_nat n" by (simp add: show_int_nonneg n_def)
    show ?thesis
      unfolding formatUnits_def Let_def sv hd if_False ds_def [symmetric] i_def [symmetric]
        f_def [symmetric] i'_def [symmetric] using False by simp
  qed
  show ?thesis using body i' digf lf by (auto simp: n_def)
qed

lemma formatUnits_parse: "parse_decimal (formatUnits v d) = Some (of_int v / 10 ^ d)"
proof -
  obtain i f where fu: "formatUnits v d = (if v < 0 then ''-'' else []) @ i @ point_fraction (strip_zeros f)"
    and i: "i \<noteq> []" "list_all is_digit i" and f: "list_all is_digit f" "length f = d"
    and rd: "read_nat (i @ f) = nat \<bar>v\<bar>"
    using formatUnits_shape [of v d] by blast
  have pu: "parse_unsigned (i @ point_fraction (strip_zeros f)) = Some (of_int \<bar>v\<bar> / 10 ^ d)"
    using parse_trimmed [OF i f(1)] rd f(2) by simp
  show ?thesis
  proof (cases "v < 0")
    case True
    then show ?thesis by (simp add: fu parse_decimal_def pu)
  next
    case False
    then show ?thesis using pu by (simp add: fu parse_decimal_digits [OF i])
  qed
qed

subsection \<open>Evaluation rules\<close>

text \<open>viem's formatter unfolds on a concrete amount.\<close>

declare pad_start_def [eval_simps]
  formatUnits_def [eval_simps]
  formatEther_def [eval_simps]

end
