(* ===== verification/Poller.thy ===== *)
theory Poller
  imports FormatSol FormatUnits
begin

text \<open>
  The two polling hooks of SignedInScreen.tsx, \<open>useEvmBalance\<close> (lines 60--88) and
  \<open>useSolanaBalance\<close> (lines 90--120), as one step function over the state of one hook
  instance.  Both hooks have the same shape: a \<open>balance\<close> state, a \<open>getBalance\<close>
  callback that returns early on a falsy address and otherwise awaits one network call, and
  an effect that, when \<open>poll\<close> is set, calls \<open>getBalance\<close> at once and then every
  500 ms.  They differ only in what happens when the awaited call settles: that statement is
  the parameter \<open>h\<close> of \<open>poller_step\<close>, instantiated by \<open>evm_settle\<close> and
  \<open>sol_settle\<close>.

  React's part is modelled as the code relies on it: \<open>useCallback\<close> gives a new
  \<open>getBalance\<close> exactly when \<open>address\<close> changes (the client is a module constant),
  \<open>useEffect\<close> re-runs, after the previous run's cleanup, exactly when
  \<open>getBalance\<close> or \<open>poll\<close> changes, and a state update of a hook instance that is no
  longer mounted is ignored.  Time advances in steps of one millisecond (\<open>Elapse\<close>); a
  fetch is in flight from the call to its settlement, and fetches settle in any order
  (\<open>Settle\<close> names the request).  The result of a call is its value (\<open>Fetched\<close>)
  or a rejection (\<open>Failed\<close>); for the Solana connection the value is the lamport count
  of the JSON reply, which JavaScript reads as a number.  The synchronous
  \<open>new PublicKey(address)\<close> of line 102 is assumed not to throw: the SDK supplies a
  valid Solana address.
\<close>

datatype fetch_result = Fetched nat | Failed

record request =
  req_id :: nat
  req_gen :: nat
  req_addr :: address

record poller =
  balance :: "bigint option"
  address :: "address option"
  poll :: bool
  mounted :: bool
  gen :: nat
  timer :: "nat option"
  inflight :: "request list"
  next_req :: nat
  calls :: "address list"
  logged :: nat
  rejections :: nat

text \<open>
  \<open>gen\<close> numbers the mounted hook instance; \<open>timer\<close> is the interval set by the effect
  (\<open>Some t\<close>: \<open>t\<close> ms since it was set or last fired); \<open>calls\<close> records every network
  call (\<open>client.getBalance\<close> or \<open>connection.getBalance\<close>) with its address;
  \<open>logged\<close> counts \<open>console.error\<close> calls and \<open>rejections\<close> counts promises of
  \<open>getBalance\<close> that reject with nobody awaiting them.
\<close>

definition init_poller :: poller where
  "init_poller = \<lparr>balance = None, address = None, poll = False, mounted = False, gen = 0,
     timer = None, inflight = [], next_req = 0, calls = [], logged = 0, rejections = 0\<rparr>"

datatype poll_event =
    Render "address option" bool
  | Unmount
  | Elapse
  | Refresh
  | Settle nat fetch_result

definition poll_interval :: nat where
  "poll_interval = 500"

subsection \<open>The operations of one hook instance\<close>

text \<open>\<open>getBalance\<close>: \<open>if (!address) return;\<close>, then the network call is issued.\<close>

definition get_balance :: "poller \<Rightarrow> poller" where
  "get_balance s = (case address s of
      None \<Rightarrow> s
    | Some a \<Rightarrow> if a = [] then s
        else s\<lparr>inflight := inflight s @ [\<lparr>req_id = next_req s, req_gen = gen s, req_addr = a\<rparr>],
               next_req := Suc (next_req s), calls := calls s @ [a]\<rparr>)"

text \<open>\<open>setBalance\<close>, ignored by React when the issuing instance is gone.\<close>

definition set_balance :: "bool \<Rightarrow> bigint \<Rightarrow> poller \<Rightarrow> poller" where
  "set_balance live v s = (if live then s\<lparr>balance := Some v\<rparr> else s)"

text \<open>
  What follows the awaited call in \<open>useEvmBalance\<close> (line 75): the result is stored; a
  rejection propagates out of \<open>getBalance\<close>, whose callers (the effect, the interval and
  the widgets) do not catch it.
\<close>

fun evm_settle :: "bool \<Rightarrow> fetch_result \<Rightarrow> poller \<Rightarrow> poller" where
  "evm_settle live (Fetched n) s = set_balance live (int n) s"
| "evm_settle live Failed s = s\<lparr>rejections := Suc (rejections s)\<rparr>"

text \<open>
  What follows the awaited call in \<open>useSolanaBalance\<close> (lines 102--107): the RPC reports
  the lamports as a JSON number (\<open>json_number\<close>), stored as \<open>BigInt(lamports)\<close>; a
  \<open>RangeError\<close> of \<open>BigInt\<close> (no finite integer) and a failed call both end in the
  \<open>catch\<close>, which logs the error and stores zero.
\<close>

fun sol_settle :: "bool \<Rightarrow> fetch_result \<Rightarrow> poller \<Rightarrow> poller" where
  "sol_settle live (Fetched n) s = (case BigInt_of_number (json_number n) of
      Some b \<Rightarrow> set_balance live b s
    | None \<Rightarrow> set_balance live 0 (s\<lparr>logged := Suc (logged s)\<rparr>))"
| "sol_settle live Failed s = set_balance live 0 (s\<lparr>logged := Suc (logged s)\<rparr>)"

text \<open>The effect body (lines 78--85 / 110--117) and its cleanup \<open>clearInterval\<close>.\<close>

definition run_effect :: "poller \<Rightarrow> poller" where
  "run_effect s = (if \<not> poll s then s else (get_balance s)\<lparr>timer := Some 0\<rparr>)"

definition cleanup :: "poller \<Rightarrow> poller" where
  "cleanup s = s\<lparr>timer := None\<rparr>"

text \<open>
  A render with the hook arguments \<open>a\<close> and \<open>p\<close>: the first render of a new instance
  starts from \<open>useState(undefined)\<close> and runs the effect; a later render re-runs it only
  when a dependency changed.
\<close>

definition render :: "address option \<Rightarrow> bool \<Rightarrow> poller \<Rightarrow> poller" where
  "render a p s = (if \<not> mounted s
     then run_effect (s\<lparr>balance := None, address := a, poll := p, mounted := True,
                        gen := Suc (gen s), timer := None\<rparr>)
     else if a = address s \<and> p = poll s then s
     else run_effect ((cleanup s)\<lparr>address := a, poll := p\<rparr>))"

definition unmount :: "poller \<Rightarrow> poller" where
  "unmount s = (if mounted s then (cleanup s)\<lparr>mounted := False\<rparr> else s)"

text \<open>One millisecond passes; the interval fires when its period is complete.\<close>

definition elapse :: "poller \<Rightarrow> poller" where
  "elapse s = (case timer s of
      None \<Rightarrow> s
    | Some t \<Rightarrow> if Suc t = poll_interval then (get_balance s)\<lparr>timer := Some 0\<rparr>
                else s\<lparr>timer := Some (Suc t)\<rparr>)"

definition find_request :: "nat \<Rightarrow> request list \<Rightarrow> request option" where
  "find_request i rs = find (\<lambda>q. req_id q = i) rs"

definition settle :: "(bool \<Rightarrow> fetch_result \<Rightarrow> poller \<Rightarrow> poller) \<Rightarrow> nat \<Rightarrow> fetch_result \<Rightarrow> poller \<Rightarrow> poller" where
  "settle h i r s = (case find_request i (inflight s) of
      None \<Rightarrow> s
    | Some q \<Rightarrow> h (mounted s \<and> req_gen q = gen s) r
                  (s\<lparr>inflight := filter (\<lambda>q. req_id q \<noteq> i) (inflight s)\<rparr>))"

fun poller_step :: "(bool \<Rightarrow> fetch_result \<Rightarrow> poller \<Rightarrow> poller) \<Rightarrow> poller \<Rightarrow> poll_event \<Rightarrow> poller" where
  "poller_step h s (Render a p) = render a p s"
| "poller_step h s Unmount = unmount s"
| "poller_step h s Elapse = elapse s"
| "poller_step h s Refresh = get_balance s"
| "poller_step h s (Settle i r) = settle h i r s"

definition useEvmBalance :: "poller \<Rightarrow> poll_event \<Rightarrow> poller" where
  "useEvmBalance = poller_step evm_settle"

definition useSolanaBalance :: "poller \<Rightarrow> poll_event \<Rightarrow> poller" where
  "useSolanaBalance = poller_step sol_settle"

fun poller_run :: "(bool \<Rightarrow> fetch_result \<Rightarrow> poller \<Rightarrow> poller) \<Rightarrow> poller \<Rightarrow> poll_event list \<Rightarrow> poller" where
  "poller_run h s [] = s"
| "poller_run h s (e # es) = poller_run h (poller_step h s e) es"

text \<open>The memoised \<open>formattedBalance\<close> of \<open>useEvmBalance\<close> (lines 67--70).\<close>

definition evm_formatted :: "poller \<Rightarrow> string option" where
  "evm_formatted s = (case balance s of None \<Rightarrow> None | Some b \<Rightarrow> Some (formatEther b))"

text \<open>The memoised \<open>formattedBalance\<close> of \<open>useSolanaBalance\<close> (lines 93--97).\<close>

definition sol_formatted :: "poller \<Rightarrow> string option" where
  "sol_formatted s = map_option (\<lambda>b. formatSol (number_of_bigint b)) (balance s)"


subsection \<open>The interface between the common hook and the chain-specific handler\<close>

text \<open>
  A settle handler may only write the balance and the two side-effect counters, and it
  must not write the balance of an instance that is gone.  Both handlers satisfy this.
\<close>

definition settle_frame :: "(bool \<Rightarrow> fetch_result \<Rightarrow> poller \<Rightarrow> poller) \<Rightarrow> bool" where
  "settle_frame h \<longleftrightarrow> (\<forall>live r s. \<exists>b l j. h live r s = s\<lparr>balance := b, logged := l, rejections := j\<rparr>)"

definition settle_guarded :: "(bool \<Rightarrow> fetch_result \<Rightarrow> poller \<Rightarrow> poller) \<Rightarrow> bool" where
  "settle_guarded h \<longleftrightarrow> (\<forall>r s. balance (h False r s) = balance s)"

lemma evm_settle_frame: "settle_frame evm_settle"
  unfolding settle_frame_def
proof (intro allI)
  fix live r and s :: poller
  show "\<exists>b l j. evm_settle live r s = s\<lparr>balance := b, logged := l, rejections := j\<rparr>"
    by (rule exI [of _ "balance (evm_settle live r s)"], rule exI [of _ "logged (evm_settle live r s)"],
        rule exI [of _ "rejections (evm_settle live r s)"]) (cases r; simp add: set_balance_def)
qed

lemma sol_settle_frame: "settle_frame sol_settle"
  unfolding settle_frame_def
proof (intro allI)
  fix live r and s :: poller
  show "\<exists>b l j. sol_settle live r s = s\<lparr>balance := b, logged := l, rejections := j\<rparr>"
    by (rule exI [of _ "balance (sol_settle live r s)"], rule exI [of _ "logged (sol_settle live r s)"],
        rule exI [of _ "rejections (sol_settle live r s)"]) (cases r; simp add: set_balance_def split: option.splits)
qed

lemma evm_settle_guarded: "settle_guarded evm_settle"
  unfolding settle_guarded_def
proof (intro allI)
  fix r and s :: poller
  show "balance (evm_settle False r s) = balance s" by (cases r) (simp_all add: set_balance_def)
qed

lemma sol_settle_guarded: "settle_guarded sol_settle"
  unfolding settle_guarded_def
proof (intro allI)
  fix r and s :: poller
  show "balance (sol_settle False r s) = balance s" by (cases r) (simp_all add: set_balance_def split: option.splits)
qed

lemma settle_frameE:
  assumes "settle_frame h"
  obtains b l j where "h live r s = s\<lparr>balance := b, logged := l, rejections := j\<rparr>"
  using assms unfolding settle_frame_def by blast

lemma settle_frameD:
  assumes "settle_frame h"
  shows "address (h live r s) = address s" "poll (h live r s) = poll s"
    "mounted (h live r s) = mounted s" "gen (h live r s) = gen s" "timer (h live r s) = timer s"
    "inflight (h live r s) = inflight s" "next_req (h live r s) = next_req s"
    "calls (h live r s) = calls s"
proof -
  obtain b l j where e: "h live r s = s\<lparr>balance := b, logged := l, rejections := j\<rparr>"
    using settle_frameE [OF assms] .
  show "address (h live r s) = address s" "poll (h live r s) = poll s"
    "mounted (h live r s) = mounted s" "gen (h live r s) = gen s" "timer (h live r s) = timer s"
    "inflight (h live r s) = inflight s" "next_req (h live r s) = next_req s"
    "calls (h live r s) = calls s"
    by (simp_all add: e)
qed

subsection \<open>Frame lemmas of the operations\<close>

lemma get_balance_frame [simp]:
  "balance (get_balance s) = balance s" "address (get_balance s) = address s"
  "poll (get_balance s) = poll s" "mounted (get_balance s) = mounted s"
  "gen (get_balance s) = gen s" "timer (get_balance s) = timer s"
  "logged (get_balance s) = logged s" "rejections (get_balance s) = rejections s"
  by (simp_all add: get_balance_def split: option.splits)

lemma get_balance_falsy: "falsy_address (address s) \<Longrightarrow> get_balance s = s"
  by (auto simp: get_balance_def falsy_address_def split: option.splits)

lemma get_balance_truthy:
  "address s = Some a \<Longrightarrow> a \<noteq> [] \<Longrightarrow>
   get_balance s = s\<lparr>inflight := inflight s @ [\<lparr>req_id = next_req s, req_gen = gen s, req_addr = a\<rparr>],
                     next_req := Suc (next_req s), calls := calls s @ [a]\<rparr>"
  by (simp add: get_balance_def)

subsection \<open>The invariant of a hook instance\<close>

definition poller_inv :: "poller \<Rightarrow> bool" where
  "poller_inv s \<longleftrightarrow>
     (case timer s of None \<Rightarrow> True | Some t \<Rightarrow> t < poll_interval \<and> mounted s \<and> poll s) \<and>
     list_all (\<lambda>q. req_id q < next_req s \<and> req_gen q \<le> gen s) (inflight s) \<and>
     distinct (map req_id (inflight s)) \<and> length (calls s) = next_req s"

lemma poller_inv_init: "poller_inv init_poller"
  by (simp add: poller_inv_def init_poller_def)

lemma get_balance_inv: "poller_inv s \<Longrightarrow> poller_inv (get_balance s)"
proof (cases "falsy_address (address s)")
  case True
  then show "poller_inv s \<Longrightarrow> poller_inv (get_balance s)" by (simp add: get_balance_falsy)
next
  case False
  then obtain a where a: "address s = Some a" "a \<noteq> []"
    by (cases "address s") auto
  assume inv: "poller_inv s"
  then have "next_req s \<notin> set (map req_id (inflight s))"
    by (auto simp: poller_inv_def list_all_iff)
  with inv show "poller_inv (get_balance s)"
    by (auto simp: poller_inv_def get_balance_truthy [OF a] list_all_iff split: option.splits)
qed


lemma run_effect_inv: "poller_inv s \<Longrightarrow> mounted s \<Longrightarrow> timer s = None \<Longrightarrow> poller_inv (run_effect s)"
  using get_balance_inv [of s] by (auto simp: run_effect_def poller_inv_def poll_interval_def)

lemma render_inv: "poller_inv s \<Longrightarrow> poller_inv (render a p s)"
proof -
  assume inv: "poller_inv s"
  have fresh: "poller_inv (s\<lparr>balance := None, address := a, poll := p, mounted := True,
                              gen := Suc (gen s), timer := None\<rparr>)"
    using inv by (auto simp: poller_inv_def list_all_iff)
  have again: "poller_inv ((cleanup s)\<lparr>address := a, poll := p\<rparr>)"
    using inv by (simp add: poller_inv_def cleanup_def)
  show ?thesis
    using inv run_effect_inv [OF fresh] run_effect_inv [OF again]
    by (simp add: render_def cleanup_def)
qed

lemma unmount_inv: "poller_inv s \<Longrightarrow> poller_inv (unmount s)"
  by (simp add: unmount_def cleanup_def poller_inv_def)

lemma elapse_inv: "poller_inv s \<Longrightarrow> poller_inv (elapse s)"
proof (cases "timer s")
  case None
  then show "poller_inv s \<Longrightarrow> poller_inv (elapse s)" by (simp add: elapse_def)
next
  case (Some t)
  assume inv: "poller_inv s"
  then have t: "t < poll_interval" "mounted s" "poll s" using Some by (simp_all add: poller_inv_def)
  have g: "poller_inv (get_balance s)" using inv by (rule get_balance_inv)
  show "poller_inv (elapse s)"
  proof (cases "Suc t = poll_interval")
    case True
    with g t Some show ?thesis by (simp add: elapse_def poller_inv_def poll_interval_def)
  next
    case False
    with inv t Some show ?thesis by (simp add: elapse_def poller_inv_def)
  qed
qed

lemma settle_inv: "settle_frame h \<Longrightarrow> poller_inv s \<Longrightarrow> poller_inv (settle h i r s)"
  by (auto simp: settle_def poller_inv_def settle_frameD list_all_iff distinct_map_filter
           split: option.splits)

lemma poller_step_inv: "settle_frame h \<Longrightarrow> poller_inv s \<Longrightarrow> poller_inv (poller_step h s e)"
  by (cases e) (simp_all add: render_inv unmount_inv elapse_inv get_balance_inv settle_inv)

lemma poller_run_inv: "settle_frame h \<Longrightarrow> poller_inv s \<Longrightarrow> poller_inv (poller_run h s es)"
  by (induction es arbitrary: s) (simp_all add: poller_step_inv)


subsection \<open>Settling a request that is in flight\<close>

lemma find_request_member:
  "distinct (map req_id rs) \<Longrightarrow> q \<in> set rs \<Longrightarrow> find_request (req_id q) rs = Some q"
  by (induction rs) (auto simp: find_request_def)

lemma settle_member:
  assumes "poller_inv s" "q \<in> set (inflight s)"
  shows "settle h (req_id q) r s =
           h (mounted s \<and> req_gen q = gen s) r (s\<lparr>inflight := filter (\<lambda>x. req_id x \<noteq> req_id q) (inflight s)\<rparr>)"
  using assms find_request_member [of "inflight s" q] by (simp add: settle_def poller_inv_def)

lemma poller_run_append: "poller_run h s (xs @ ys) = poller_run h (poller_run h s xs) ys"
  by (induction xs arbitrary: s) simp_all

lemma run_elapse_quiet:
  "timer s = Some t \<Longrightarrow> t + k < poll_interval \<Longrightarrow>
   poller_run h s (replicate k Elapse) = s\<lparr>timer := Some (t + k)\<rparr>"
proof (induction k arbitrary: s t)
  case 0
  then show ?case by simp
next
  case (Suc k)
  then have "elapse s = s\<lparr>timer := Some (Suc t)\<rparr>" by (simp add: elapse_def)
  moreover have "poller_run h (s\<lparr>timer := Some (Suc t)\<rparr>) (replicate k Elapse) =
      s\<lparr>timer := Some (Suc t)\<rparr>\<lparr>timer := Some (Suc t + k)\<rparr>"
    using Suc.prems by (intro Suc.IH) simp_all
  ultimately show ?case by simp
qed

definition quiet :: "poller \<Rightarrow> bool" where
  "quiet s \<longleftrightarrow> falsy_address (address s) \<and> inflight s = [] \<and> calls s = [] \<and> balance s = None"

lemma quiet_get_balance: "quiet s \<Longrightarrow> get_balance s = s"
  by (simp add: quiet_def get_balance_falsy)

lemma quiet_run_effect: "quiet s \<Longrightarrow> quiet (run_effect s)"
  by (simp add: run_effect_def quiet_get_balance) (simp add: quiet_def)

lemma quiet_render: "quiet s \<Longrightarrow> falsy_address a \<Longrightarrow> quiet (render a p s)"
proof -
  assume q: "quiet s" and a: "falsy_address a"
  have "quiet (s\<lparr>balance := None, address := a, poll := p, mounted := True,
                   gen := Suc (gen s), timer := None\<rparr>)"
    using q a by (simp add: quiet_def)
  moreover have "quiet ((cleanup s)\<lparr>address := a, poll := p\<rparr>)"
    using q a by (simp add: quiet_def cleanup_def)
  ultimately show ?thesis
    using q by (simp add: render_def quiet_run_effect)
qed

lemma quiet_step:
  assumes "quiet s" "case e of Render a p \<Rightarrow> falsy_address a | _ \<Rightarrow> True"
  shows "quiet (poller_step h s e)"
proof (cases e)
  case (Render a p)
  with assms show ?thesis by (simp add: quiet_render)
next
  case Unmount
  with assms show ?thesis by (simp add: unmount_def cleanup_def quiet_def)
next
  case Elapse
  with assms show ?thesis
    by (simp add: elapse_def quiet_get_balance split: option.splits) (simp add: quiet_def)
next
  case Refresh
  with assms show ?thesis by (simp add: quiet_get_balance)
next
  case (Settle i r)
  with assms show ?thesis by (simp add: settle_def quiet_def find_request_def)
qed

lemma quiet_run:
  "quiet s \<Longrightarrow> list_all (\<lambda>e. case e of Render a p \<Rightarrow> falsy_address a | _ \<Rightarrow> True) es \<Longrightarrow>
   quiet (poller_run h s es)"
  by (induction es arbitrary: s) (simp_all add: quiet_step)

definition frozen :: "bigint option \<Rightarrow> poller \<Rightarrow> bool" where
  "frozen b s \<longleftrightarrow> poller_inv s \<and> \<not> mounted s \<and> timer s = None \<and> balance s = b"

lemma frozen_step:
  assumes "settle_frame h" "settle_guarded h" "frozen b s" "case e of Render a p \<Rightarrow> False | _ \<Rightarrow> True"
  shows "frozen b (poller_step h s e)"
proof (cases e)
  case (Settle i r)
  show ?thesis
  proof (cases "find_request i (inflight s)")
    case None
    then show ?thesis using assms(3) Settle by (simp add: settle_def)
  next
    case (Some q)
    have "poller_inv (settle h i r s)" using assms(1,3) settle_inv by (auto simp: frozen_def)
    moreover have "balance (h False r (s\<lparr>inflight := filter (\<lambda>q. req_id q \<noteq> i) (inflight s)\<rparr>)) = b"
      using assms(2,3) by (simp add: settle_guarded_def frozen_def)
    ultimately show ?thesis
      using assms(1,3) Settle Some by (simp add: settle_def frozen_def settle_frameD)
  qed
qed (use assms in \<open>auto simp: frozen_def unmount_def elapse_def get_balance_inv\<close>)

lemma frozen_run:
  "settle_frame h \<Longrightarrow> settle_guarded h \<Longrightarrow> frozen b s \<Longrightarrow>
   list_all (\<lambda>e. case e of Render a p \<Rightarrow> False | _ \<Rightarrow> True) es \<Longrightarrow> frozen b (poller_run h s es)"
  by (induction es arbitrary: s) (simp_all add: frozen_step)

lemma falsy_elapse_run:
  "falsy_address (address p) \<Longrightarrow> timer p \<noteq> None \<Longrightarrow>
   timer (poller_run h p (replicate k Elapse)) \<noteq> None \<and> calls (poller_run h p (replicate k Elapse)) = calls p"
  by (induction k arbitrary: p) (auto simp: elapse_def get_balance_falsy split: option.splits)

lemma unmount_reachable_frozen:
  assumes "settle_frame h" "settle_guarded h" "list_all (\<lambda>e. case e of Render a p \<Rightarrow> False | _ \<Rightarrow> True) es'"
  shows "timer (poller_run h (poller_step h (poller_run h init_poller es) Unmount) es') = None \<and>
         balance (poller_run h (poller_step h (poller_run h init_poller es) Unmount) es') =
           balance (poller_step h (poller_run h init_poller es) Unmount)"
proof -
  define s where "s = poller_step h (poller_run h init_poller es) Unmount"
  have i: "poller_inv s"
    using poller_run_inv [OF assms(1) poller_inv_init, of "es @ [Unmount]"] by (simp add: s_def poller_run_append)
  have m: "\<not> mounted s" by (simp add: s_def unmount_def cleanup_def)
  have f: "frozen (balance s) s" using i m by (simp add: frozen_def poller_inv_def split: option.splits)
  show ?thesis using frozen_run [OF assms(1,2) f assms(3)] by (simp add: frozen_def s_def)
qed

subsection \<open>Properties of the polling hooks\<close>

text \<open>
  C4.  In every state reachable from the first render, for both hooks: an active interval
  belongs to a mounted instance that polls and is less than one period into its cycle;
  every request in flight has a fresh, distinct id; every request was one network call.
\<close>

theorem poller_reachable_inv:
  "poller_inv (poller_run evm_settle init_poller es) \<and> poller_inv (poller_run sol_settle init_poller es)"
  using poller_run_inv [OF evm_settle_frame poller_inv_init] poller_run_inv [OF sol_settle_frame poller_inv_init]
  by blast


text \<open>
  C5.  While the hook is never rendered with a truthy address, neither hook makes a network
  call and the balance stays undefined, whatever the timer and the widgets do.
\<close>

theorem no_call_without_address:
  assumes "list_all (\<lambda>e. case e of Render a p \<Rightarrow> falsy_address a | _ \<Rightarrow> True) es"
  shows "calls (poller_run h init_poller es) = [] \<and> balance (poller_run h init_poller es) = None"
  using quiet_run [OF _ assms, of init_poller h] by (simp add: quiet_def init_poller_def)

text \<open>
  C6.  Yet the interval is started without an address: a render with a falsy address and
  \<open>poll = true\<close> that runs the effect sets a 500 ms timer, and that interval keeps
  running, every tick calling a \<open>getBalance\<close> that returns at once.
\<close>

theorem timer_without_address:
  assumes "falsy_address a" "\<not> mounted s \<or> a \<noteq> address s \<or> \<not> poll s"
  shows "timer (poller_step h s (Render a True)) = Some 0 \<and> calls (poller_step h s (Render a True)) = calls s \<and>
         (\<forall>k. timer (poller_run h (poller_step h s (Render a True)) (replicate k Elapse)) \<noteq> None \<and>
              calls (poller_run h (poller_step h s (Render a True)) (replicate k Elapse)) = calls s)"
proof -
  have r: "timer (poller_step h s (Render a True)) = Some 0 \<and> calls (poller_step h s (Render a True)) = calls s \<and>
           address (poller_step h s (Render a True)) = a"
    using assms by (auto simp: render_def run_effect_def cleanup_def get_balance_falsy)
  then show ?thesis using assms(1) falsy_elapse_run [of "poller_step h s (Render a True)"] by simp
qed

text \<open>
  C7.  With polling enabled, the first render with a truthy address calls the network at
  once, before any interval has passed, and starts the interval.
\<close>

theorem first_fetch_immediate:
  assumes "\<not> mounted s" "a \<noteq> []"
  shows "calls (poller_step h s (Render (Some a) True)) = calls s @ [a] \<and>
         timer (poller_step h s (Render (Some a) True)) = Some 0 \<and>
         balance (poller_step h s (Render (Some a) True)) = None"
  using assms by (simp add: render_def run_effect_def get_balance_def)

text \<open>
  C8.  An active interval with a truthy address makes exactly one network call per
  period: from phase \<open>t\<close>, after \<open>500 - t\<close> milliseconds the call has been made and the
  phase is back at zero.
\<close>

theorem poll_every_interval:
  assumes "poller_inv s" "timer s = Some t" "address s = Some a" "a \<noteq> []"
  shows "calls (poller_run h s (replicate (poll_interval - t) Elapse)) = calls s @ [a] \<and>
         timer (poller_run h s (replicate (poll_interval - t) Elapse)) = Some 0"
proof -
  have t: "t < poll_interval" using assms(1,2) by (simp add: poller_inv_def)
  then have r: "replicate (poll_interval - t) Elapse = replicate (poll_interval - Suc t) Elapse @ [Elapse]"
    by (metis Suc_diff_Suc replicate_Suc replicate_append_same)
  have q: "poller_run h s (replicate (poll_interval - Suc t) Elapse) =
           s\<lparr>timer := Some (t + (poll_interval - Suc t))\<rparr>"
    using t assms(2) by (intro run_elapse_quiet) simp_all
  have n: "t + (poll_interval - Suc t) = 499" using t by (simp add: poll_interval_def)
  have run: "poller_run h s (replicate (poll_interval - t) Elapse) = elapse (s\<lparr>timer := Some 499\<rparr>)"
    unfolding r poller_run_append q n by simp
  show ?thesis
    unfolding run using assms(3,4) by (simp add: elapse_def poll_interval_def get_balance_def)
qed

text \<open>
  C9.  The manual refresh passed to the widgets calls the network at once (when the
  address is truthy) and leaves the interval's phase as it was: it neither resets nor skips
  the next tick.
\<close>

theorem refresh_keeps_timer:
  "timer (poller_step h s Refresh) = timer s \<and>
   calls (poller_step h s Refresh) =
     calls s @ (case address s of None \<Rightarrow> [] | Some a \<Rightarrow> if a = [] then [] else [a])"
  by (simp add: get_balance_def split: option.splits)


text \<open>
  C10.  Error handling of \<open>useSolanaBalance\<close>: when a live request fails, the error is
  logged, the balance becomes exactly zero, and nothing escapes the hook.
\<close>

theorem sol_failure_zero:
  assumes "poller_inv s" "mounted s" "q \<in> set (inflight s)" "req_gen q = gen s"
  shows "balance (useSolanaBalance s (Settle (req_id q) Failed)) = Some 0 \<and>
         logged (useSolanaBalance s (Settle (req_id q) Failed)) = Suc (logged s) \<and>
         rejections (useSolanaBalance s (Settle (req_id q) Failed)) = rejections s"
  using assms by (simp add: useSolanaBalance_def settle_member set_balance_def)

text \<open>
  C11.  Error handling of \<open>useEvmBalance\<close>: when a request fails, the rejection
  escapes \<open>getBalance\<close> unhandled and the balance keeps its previous value.
\<close>

theorem evm_failure_rejects:
  assumes "poller_inv s" "mounted s" "q \<in> set (inflight s)" "req_gen q = gen s"
  shows "balance (useEvmBalance s (Settle (req_id q) Failed)) = balance s \<and>
         rejections (useEvmBalance s (Settle (req_id q) Failed)) = Suc (rejections s) \<and>
         logged (useEvmBalance s (Settle (req_id q) Failed)) = logged s"
  using assms by (simp add: useEvmBalance_def settle_member)

text \<open>
  C12.  Last writer wins: whichever live request settles, in whatever order, its result is
  the balance afterwards, for both hooks: the bigint of the EVM call, and
  \<open>BigInt(lamports)\<close> of the Solana call's JSON number (zero when that throws).
\<close>

theorem settle_last_writer:
  assumes "poller_inv s" "mounted s" "q \<in> set (inflight s)" "req_gen q = gen s"
  shows "balance (useEvmBalance s (Settle (req_id q) (Fetched n))) = Some (int n) \<and>
         balance (useSolanaBalance s (Settle (req_id q) (Fetched n))) =
           Some (case BigInt_of_number (json_number n) of Some b \<Rightarrow> b | None \<Rightarrow> 0)"
  using assms by (simp add: useEvmBalance_def useSolanaBalance_def settle_member set_balance_def
                     split: option.splits)

text \<open>
  C13.  Unmounting a hook reached from its first render clears its interval for good: no
  event but a new render restarts it or changes the balance; fetches that settle later,
  ticks and refresh callbacks leave it as it was.
\<close>

theorem unmount_freezes:
  assumes "list_all (\<lambda>e. case e of Render a p \<Rightarrow> False | _ \<Rightarrow> True) es'"
  shows "timer (poller_run evm_settle (poller_step evm_settle (poller_run evm_settle init_poller es) Unmount) es') = None \<and>
         balance (poller_run evm_settle (poller_step evm_settle (poller_run evm_settle init_poller es) Unmount) es') =
           balance (poller_step evm_settle (poller_run evm_settle init_poller es) Unmount) \<and>
         timer (poller_run sol_settle (poller_step sol_settle (poller_run sol_settle init_poller es) Unmount) es') = None \<and>
         balance (poller_run sol_settle (poller_step sol_settle (poller_run sol_settle init_poller es) Unmount) es') =
           balance (poller_step sol_settle (poller_run sol_settle init_poller es) Unmount)"
  using unmount_reachable_frozen [OF evm_settle_frame evm_settle_guarded assms, of es]
        unmount_reachable_frozen [OF sol_settle_frame sol_settle_guarded assms, of es]
  by blast

text \<open>
  C14.  The EVM hook's \<open>formattedBalance\<close> (\<open>formatEther\<close>, lines 67--70) is
  undefined exactly while the balance is, and otherwise a decimal string that denotes
  exactly \<open>balance / 10^18\<close> ether: no precision is lost for any wei amount.
\<close>

theorem evm_formatted_denotes:
  "map_option parse_decimal (evm_formatted s) = map_option (\<lambda>b. Some (of_int b / 10 ^ 18)) (balance s)"
  by (cases "balance s") (simp_all add: evm_formatted_def formatEther_def formatUnits_parse)

text \<open>
  C15.  A defined EVM \<open>formattedBalance\<close> is in canonical decimal form: an optional minus
  sign, a non-empty integer part of digits, and, only when it is not zero, a point and a
  fraction of at most 18 digits that does not end in \<open>0\<close>.
\<close>

theorem evm_formatted_canonical:
  assumes "balance s = Some b"
  shows "\<exists>i f. evm_formatted s = Some ((if b < 0 then ''-'' else []) @ i @ point_fraction f) \<and>
           i \<noteq> [] \<and> list_all is_digit i \<and> list_all is_digit f \<and> length f \<le> 18 \<and>
           (f = [] \<or> last f \<noteq> CHR ''0'')"
proof -
  obtain i f where fu: "formatUnits b 18 = (if b < 0 then ''-'' else []) @ i @ point_fraction (strip_zeros f)"
    and i: "i \<noteq> []" "list_all is_digit i" and f: "list_all is_digit f" "length f = 18"
    using formatUnits_shape [of b 18] by blast
  obtain k where k: "f = strip_zeros f @ replicate k CHR ''0''" using strip_zeros_suffix by blast
  have "length (strip_zeros f) \<le> 18" using f(2) k by (metis le_add1 length_append)
  moreover have "list_all is_digit (strip_zeros f)"
    using f(1) strip_zeros_set [of f] by (auto simp: list_all_iff)
  moreover have "strip_zeros f = [] \<or> last (strip_zeros f) \<noteq> CHR ''0''"
    using strip_zeros_last by blast
  moreover have "evm_formatted s = Some ((if b < 0 then ''-'' else []) @ i @ point_fraction (strip_zeros f))"
    using assms fu by (simp add: evm_formatted_def formatEther_def)
  ultimately show ?thesis using i by blast
qed

subsection \<open>A Solana balance above \<open>2^53\<close> lamports\<close>

text \<open>
  The JSON number of the reply rounds \<open>2^53 + 1\<close> lamports to the double \<open>2^53\<close>, so
  \<open>BigInt(lamports)\<close> stores a raw balance one lamport off.
\<close>

lemma sol_settle_rounds_lamports:
  "balance (sol_settle True (Fetched 9007199254740993) s) = Some 9007199254740992"
proof -
  have j: "json_number 9007199254740993 = JsNum False 4503599627370496 1"
    by (simp add: json_number_def eval_simps binade_eqI [where e = 1])
  have "BigInt_of_number (JsNum False 4503599627370496 1) = Some 9007199254740992"
    by (simp add: BigInt_of_number_def js_val_def)
  then show ?thesis by (simp add: j set_balance_def)
qed

subsection \<open>Witnesses\<close>

lemma demo_mounted_facts:
  "poller_inv (render (Some ''0xab'') True init_poller)" "mounted (render (Some ''0xab'') True init_poller)" "timer (render (Some ''0xab'') True init_poller) = Some 0"
  "address (render (Some ''0xab'') True init_poller) = Some ''0xab''" "\<lparr>req_id = 0, req_gen = 1, req_addr = ''0xab''\<rparr> \<in> set (inflight (render (Some ''0xab'') True init_poller))" "req_gen \<lparr>req_id = 0, req_gen = 1, req_addr = ''0xab''\<rparr> = gen (render (Some ''0xab'') True init_poller)"
  by (simp_all add: render_def run_effect_def get_balance_def init_poller_def poller_inv_def poll_interval_def)

theorem no_call_without_address_witness:
  "list_all (\<lambda>e. case e of Render a p \<Rightarrow> falsy_address a | _ \<Rightarrow> True)
     [Render None True, Elapse, Refresh, Render (Some []) True, Settle 0 Failed] \<and>
   calls (poller_run evm_settle init_poller
     [Render None True, Elapse, Refresh, Render (Some []) True, Settle 0 Failed]) = [] \<and>
   balance (poller_run evm_settle init_poller
     [Render None True, Elapse, Refresh, Render (Some []) True, Settle 0 Failed]) = None"
proof -
  have h: "list_all (\<lambda>e. case e of Render a p \<Rightarrow> falsy_address a | _ \<Rightarrow> True)
     [Render None True, Elapse, Refresh, Render (Some []) True, Settle 0 Failed]" by simp
  show ?thesis using h no_call_without_address [OF h, of evm_settle] by blast
qed

theorem first_fetch_immediate_witness:
  "\<not> mounted init_poller \<and> ''0xab'' \<noteq> [] \<and>
   calls (poller_step evm_settle init_poller (Render (Some ''0xab'') True)) = calls init_poller @ [''0xab''] \<and>
   timer (poller_step evm_settle init_poller (Render (Some ''0xab'') True)) = Some 0 \<and>
   balance (poller_step evm_settle init_poller (Render (Some ''0xab'') True)) = None"
proof -
  have h: "\<not> mounted init_poller" by (simp add: init_poller_def)
  have a: "''0xab'' \<noteq> []" by simp
  show ?thesis using h a first_fetch_immediate [OF h a, of evm_settle] by blast
qed

theorem poll_every_interval_witness:
  "poller_inv (render (Some ''0xab'') True init_poller) \<and> timer (render (Some ''0xab'') True init_poller) = Some 0 \<and> address (render (Some ''0xab'') True init_poller) = Some ''0xab'' \<and> ''0xab'' \<noteq> [] \<and>
   calls (poller_run evm_settle (render (Some ''0xab'') True init_poller) (replicate (poll_interval - 0) Elapse)) = calls (render (Some ''0xab'') True init_poller) @ [''0xab''] \<and>
   timer (poller_run evm_settle (render (Some ''0xab'') True init_poller) (replicate (poll_interval - 0) Elapse)) = Some 0"
proof -
  have a: "''0xab'' \<noteq> []" by simp
  show ?thesis
    using demo_mounted_facts(1,3,4) a
          poll_every_interval [OF demo_mounted_facts(1,3,4) a, of evm_settle] by blast
qed

theorem sol_failure_zero_witness:
  "poller_inv (render (Some ''0xab'') True init_poller) \<and> mounted (render (Some ''0xab'') True init_poller) \<and> \<lparr>req_id = 0, req_gen = 1, req_addr = ''0xab''\<rparr> \<in> set (inflight (render (Some ''0xab'') True init_poller)) \<and> req_gen \<lparr>req_id = 0, req_gen = 1, req_addr = ''0xab''\<rparr> = gen (render (Some ''0xab'') True init_poller) \<and>
   balance (useSolanaBalance (render (Some ''0xab'') True init_poller) (Settle (req_id \<lparr>req_id = 0, req_gen = 1, req_addr = ''0xab''\<rparr>) Failed)) = Some 0 \<and>
   logged (useSolanaBalance (render (Some ''0xab'') True init_poller) (Settle (req_id \<lparr>req_id = 0, req_gen = 1, req_addr = ''0xab''\<rparr>) Failed)) = Suc (logged (render (Some ''0xab'') True init_poller)) \<and>
   rejections (useSolanaBalance (render (Some ''0xab'') True init_poller) (Settle (req_id \<lparr>req_id = 0, req_gen = 1, req_addr = ''0xab''\<rparr>) Failed)) = rejections (render (Some ''0xab'') True init_poller)"
  using demo_mounted_facts(1,2,5,6) sol_failure_zero [OF demo_mounted_facts(1,2,5,6)] by blast

theorem evm_failure_rejects_witness:
  "poller_inv (render (Some ''0xab'') True init_poller) \<and> mounted (render (Some ''0xab'') True init_poller) \<and> \<lparr>req_id = 0, req_gen = 1, req_addr = ''0xab''\<rparr> \<in> set (inflight (render (Some ''0xab'') True init_poller)) \<and> req_gen \<lparr>req_id = 0, req_gen = 1, req_addr = ''0xab''\<rparr> = gen (render (Some ''0xab'') True init_poller) \<and>
   balance (useEvmBalance (render (Some ''0xab'') True init_poller) (Settle (req_id \<lparr>req_id = 0, req_gen = 1, req_addr = ''0xab''\<rparr>) Failed)) = balance (render (Some ''0xab'') True init_poller) \<and>
   rejections (useEvmBalance (render (Some ''0xab'') True init_poller) (Settle (req_id \<lparr>req_id = 0, req_gen = 1, req_addr = ''0xab''\<rparr>) Failed)) = Suc (rejections (render (Some ''0xab'') True init_poller)) \<and>
   logged (useEvmBalance (render (Some ''0xab'') True init_poller) (Settle (req_id \<lparr>req_id = 0, req_gen = 1, req_addr = ''0xab''\<rparr>) Failed)) = logged (render (Some ''0xab'') True init_poller)"
  using demo_mounted_facts(1,2,5,6) evm_failure_rejects [OF demo_mounted_facts(1,2,5,6)] by blast

theorem settle_last_writer_witness:
  "poller_inv (render (Some ''0xab'') True init_poller) \<and> mounted (render (Some ''0xab'') True init_poller) \<and> \<lparr>req_id = 0, req_gen = 1, req_addr = ''0xab''\<rparr> \<in> set (inflight (render (Some ''0xab'') True init_poller)) \<and> req_gen \<lparr>req_id = 0, req_gen = 1, req_addr = ''0xab''\<rparr> = gen (render (Some ''0xab'') True init_poller) \<and>
   balance (useEvmBalance (render (Some ''0xab'') True init_poller) (Settle (req_id \<lparr>req_id = 0, req_gen = 1, req_addr = ''0xab''\<rparr>) (Fetched 42))) = Some (int 42) \<and>
   balance (useSolanaBalance (render (Some ''0xab'') True init_poller) (Settle (req_id \<lparr>req_id = 0, req_gen = 1, req_addr = ''0xab''\<rparr>) (Fetched 42))) =
     Some (case BigInt_of_number (json_number 42) of Some b \<Rightarrow> b | None \<Rightarrow> 0)"
  using demo_mounted_facts(1,2,5,6) settle_last_writer [OF demo_mounted_facts(1,2,5,6), of 42] by blast

theorem unmount_freezes_witness:
  "list_all (\<lambda>e. case e of Render a p \<Rightarrow> False | _ \<Rightarrow> True) [Elapse, Refresh, Settle 0 (Fetched 9)] \<and>
   timer (poller_run evm_settle (poller_step evm_settle (poller_run evm_settle init_poller [Render (Some ''0xab'') True]) Unmount)
     [Elapse, Refresh, Settle 0 (Fetched 9)]) = None \<and>
   balance (poller_run evm_settle (poller_step evm_settle (poller_run evm_settle init_poller [Render (Some ''0xab'') True]) Unmount)
     [Elapse, Refresh, Settle 0 (Fetched 9)]) =
     balance (poller_step evm_settle (poller_run evm_settle init_poller [Render (Some ''0xab'') True]) Unmount) \<and>
   timer (poller_run sol_settle (poller_step sol_settle (poller_run sol_settle init_poller [Render (Some ''0xab'') True]) Unmount)
     [Elapse, Refresh, Settle 0 (Fetched 9)]) = None \<and>
   balance (poller_run sol_settle (poller_step sol_settle (poller_run sol_settle init_poller [Render (Some ''0xab'') True]) Unmount)
     [Elapse, Refresh, Settle 0 (Fetched 9)]) =
     balance (poller_step sol_settle (poller_run sol_settle init_poller [Render (Some ''0xab'') True]) Unmount)"
proof -
  have l: "list_all (\<lambda>e. case e of Render a p \<Rightarrow> False | _ \<Rightarrow> True) [Elapse, Refresh, Settle 0 (Fetched 9)]"
    by simp
  show ?thesis using l unmount_freezes [OF l, of "[Render (Some ''0xab'') True]"] by blast
qed

theorem timer_without_address_witness:
  "falsy_address None \<and> \<not> mounted init_poller \<and>
   timer (poller_step evm_settle init_poller (Render None True)) = Some 0 \<and>
   calls (poller_step evm_settle init_poller (Render None True)) = calls init_poller \<and>
   (\<forall>k. timer (poller_run evm_settle (poller_step evm_settle init_poller (Render None True)) (replicate k Elapse)) \<noteq> None \<and>
        calls (poller_run evm_settle (poller_step evm_settle init_poller (Render None True)) (replicate k Elapse)) = calls init_poller)"
proof -
  have h1: "falsy_address None" by simp
  have m: "\<not> mounted init_poller" by (simp add: init_poller_def)
  then have h2: "\<not> mounted init_poller \<or> None \<noteq> address init_poller \<or> \<not> poll init_poller" by blast
  show ?thesis using h1 m timer_without_address [OF h1 h2, of evm_settle] by blast
qed

theorem evm_formatted_canonical_witness:
  "balance (init_poller\<lparr>balance := Some 1500000000000000000\<rparr>) = Some 1500000000000000000 \<and>
   (\<exists>i f. evm_formatted (init_poller\<lparr>balance := Some 1500000000000000000\<rparr>) =
      Some ((if (1500000000000000000::int) < 0 then ''-'' else []) @ i @ point_fraction f) \<and>
      i \<noteq> [] \<and> list_all is_digit i \<and> list_all is_digit f \<and> length f \<le> 18 \<and>
      (f = [] \<or> last f \<noteq> CHR ''0''))"
proof -
  have h: "balance (init_poller\<lparr>balance := Some 1500000000000000000\<rparr>) = Some 1500000000000000000"
    by simp
  show ?thesis using h evm_formatted_canonical [OF h] by blast
qed

end
