(* ===== verification/Screen.thy ===== *)
theory Screen
  imports Poller
begin

text \<open>
  The screen: the component \<open>UserBalance\<close> (src/unnamed/part_000, lines 17--44),
  \<open>getEVMComponentPath\<close> (SignedInScreen.tsx lines 21--29) and the component
  \<open>SignedInScreen\<close> (lines 137--239).  A render is a function from the hook results to the
  list of the elements it shows, in document order; the funding and transaction widgets are
  elements that carry their props, among them the \<open>onSuccess\<close> callback, named by the
  hook instance whose \<open>getBalance\<close> it is.  The screen's state holds the four hook
  instances of lines 142--149; a screen event is a render with new authentication data, an
  unmount, a millisecond of the common clock, the settlement of one hook's fetch or a
  widget's call of its \<open>onSuccess\<close>.  Here the lazily loaded widgets are shown as
  elements; theory \<open>App\<close> adds their loading, the \<open>Suspense\<close> fallback and the
  crash of a failed import.
\<close>

record session =
  isSignedIn :: bool
  evmAddress :: "address option"
  solanaAddress :: "address option"

text \<open>The two build-time variables the components read from \<open>process.env\<close>.\<close>

record env =
  NEXT_PUBLIC_CDP_CREATE_SOLANA_ACCOUNT :: "string option"
  NEXT_PUBLIC_CDP_CREATE_ETHEREUM_ACCOUNT_TYPE :: "string option"

datatype balance_hook = BaseBalance | SepoliaBalance | SolanaMainnetBalance | SolanaDevnetBalance

datatype view_node =
    Header
  | PageHeading string
  | CardTitle string
  | LoadingSkeleton
  | BalanceLine string string string
  | FaucetLine string string string
  | PageDivider
  | FundWallet balance_hook string string address
  | EVMTransaction string "string option" balance_hook
  | SolanaTransaction balance_hook

text \<open>
  \<open>BalanceLine icon amount label\<close> is the row of line 27--31, \<open>FaucetLine currency url
  name\<close> the paragraph of lines 35--40; \<open>FundWallet onSuccess network cryptoCurrency
  destinationAddress\<close> and \<open>EVMTransaction path balance onSuccess\<close> are the widgets with
  their props, the path being the module the lazy component loads.
\<close>

subsection \<open>\<open>UserBalance\<close>\<close>

definition UserBalance :: "env \<Rightarrow> string option \<Rightarrow> string option \<Rightarrow> string option \<Rightarrow> view_node list" where
  "UserBalance e bal faucetUrl faucetName = (let
      isSolana = truthy (NEXT_PUBLIC_CDP_CREATE_SOLANA_ACCOUNT e)
    in [CardTitle ''Available balance''] @
       (case bal of
          None \<Rightarrow> [LoadingSkeleton]
        | Some b \<Rightarrow> [BalanceLine (if isSolana then ''/sol.svg'' else ''/eth.svg'') b
                                 (if isSolana then ''Solana'' else ''Ethereum'')]) @
       (if truthy faucetUrl \<and> truthy faucetName
        then [FaucetLine (if isSolana then ''SOL'' else ''ETH'') (the faucetUrl) (the faucetName)]
        else []))"

subsection \<open>\<open>SignedInScreen\<close>\<close>

definition getEVMComponentPath :: "env \<Rightarrow> string" where
  "getEVMComponentPath e = (let
      isSmartAccount = (NEXT_PUBLIC_CDP_CREATE_ETHEREUM_ACCOUNT_TYPE e = Some ''smart'')
    in if isSmartAccount then ''@/components/SmartAccountTransaction''
       else ''@/components/EOATransaction'')"

definition SignedInScreen ::
  "env \<Rightarrow> session \<Rightarrow> string option \<Rightarrow> string option \<Rightarrow> string option \<Rightarrow> string option \<Rightarrow> view_node list" where
  "SignedInScreen e a formattedBalance formattedBalanceSepolia formattedBalanceSolana
       formattedBalanceSolanaDevnet =
     [Header] @
     (if truthy (evmAddress a) then
        [PageHeading ''Fund your EVM wallet on Base''] @
        UserBalance e formattedBalance None None @
        (if isSignedIn a then [FundWallet BaseBalance ''base'' ''eth'' (the (evmAddress a))] else []) @
        [PageDivider, PageHeading ''Send an EVM transaction on Base Sepolia''] @
        UserBalance e formattedBalanceSepolia (Some ''https://portal.cdp.coinbase.com/products/faucet'')
          (Some ''Base Sepolia Faucet'') @
        (if isSignedIn a
         then [EVMTransaction (getEVMComponentPath e) formattedBalanceSepolia SepoliaBalance] else [])
      else []) @
     (if truthy (solanaAddress a) then
        (if truthy (evmAddress a) then [PageDivider] else []) @
        [PageHeading ''Fund your Solana wallet on Mainnet''] @
        UserBalance e formattedBalanceSolana None None @
        (if isSignedIn a
         then [FundWallet SolanaMainnetBalance ''solana'' ''sol'' (the (solanaAddress a))] else []) @
        [PageDivider, PageHeading ''Send a Solana transaction on Devnet''] @
        UserBalance e formattedBalanceSolanaDevnet
          (Some ''https://portal.cdp.coinbase.com/products/faucet?network=solana-devnet'')
          (Some ''Solana Devnet Faucet'') @
        (if isSignedIn a then [SolanaTransaction SolanaDevnetBalance] else [])
      else [])"


subsection \<open>The screen's hook instances and their events\<close>

record screen =
  session :: session
  base :: poller
  sepolia :: poller
  sol_mainnet :: poller
  sol_devnet :: poller

definition init_screen :: screen where
  "init_screen = \<lparr>session = \<lparr>isSignedIn = False, evmAddress = None, solanaAddress = None\<rparr>,
     base = init_poller, sepolia = init_poller, sol_mainnet = init_poller, sol_devnet = init_poller\<rparr>"

text \<open>Which hook each instance is, and the arguments the render passes to it (lines 142--149).\<close>

definition hook :: "balance_hook \<Rightarrow> poller \<Rightarrow> poll_event \<Rightarrow> poller" where
  "hook h = (case h of
      BaseBalance \<Rightarrow> useEvmBalance | SepoliaBalance \<Rightarrow> useEvmBalance
    | SolanaMainnetBalance \<Rightarrow> useSolanaBalance | SolanaDevnetBalance \<Rightarrow> useSolanaBalance)"

definition hook_args :: "session \<Rightarrow> balance_hook \<Rightarrow> address option \<times> bool" where
  "hook_args a h = (case h of
      BaseBalance \<Rightarrow> (evmAddress a, True)
    | SepoliaBalance \<Rightarrow> (evmAddress a, True)
    | SolanaMainnetBalance \<Rightarrow> (solanaAddress a, False)
    | SolanaDevnetBalance \<Rightarrow> (solanaAddress a, True))"

definition get_hook :: "screen \<Rightarrow> balance_hook \<Rightarrow> poller" where
  "get_hook s h = (case h of
      BaseBalance \<Rightarrow> base s | SepoliaBalance \<Rightarrow> sepolia s
    | SolanaMainnetBalance \<Rightarrow> sol_mainnet s | SolanaDevnetBalance \<Rightarrow> sol_devnet s)"

definition hook_step :: "balance_hook \<Rightarrow> poll_event \<Rightarrow> screen \<Rightarrow> screen" where
  "hook_step h ev s = (case h of
      BaseBalance \<Rightarrow> s\<lparr>base := hook h (base s) ev\<rparr>
    | SepoliaBalance \<Rightarrow> s\<lparr>sepolia := hook h (sepolia s) ev\<rparr>
    | SolanaMainnetBalance \<Rightarrow> s\<lparr>sol_mainnet := hook h (sol_mainnet s) ev\<rparr>
    | SolanaDevnetBalance \<Rightarrow> s\<lparr>sol_devnet := hook h (sol_devnet s) ev\<rparr>)"

definition all_hooks :: "balance_hook list" where
  "all_hooks = [BaseBalance, SepoliaBalance, SolanaMainnetBalance, SolanaDevnetBalance]"

text \<open>
  A render of \<open>SignedInScreen\<close> with new authentication data calls the four hooks in
  order; a tick of the clock passes one millisecond for every interval.
\<close>

definition screen_render :: "session \<Rightarrow> screen \<Rightarrow> screen" where
  "screen_render a s =
     fold (\<lambda>h. hook_step h (case hook_args a h of (ad, p) \<Rightarrow> Render ad p)) all_hooks (s\<lparr>session := a\<rparr>)"

datatype screen_event =
    ScreenRender session
  | ScreenUnmount
  | Tick
  | Resolve balance_hook nat fetch_result
  | Callback balance_hook

fun screen_step :: "screen \<Rightarrow> screen_event \<Rightarrow> screen" where
  "screen_step s (ScreenRender a) = screen_render a s"
| "screen_step s ScreenUnmount = fold (\<lambda>h. hook_step h Unmount) all_hooks s"
| "screen_step s Tick = fold (\<lambda>h. hook_step h Elapse) all_hooks s"
| "screen_step s (Resolve h i r) = hook_step h (Settle i r) s"
| "screen_step s (Callback h) = hook_step h Refresh s"

fun screen_run :: "screen \<Rightarrow> screen_event list \<Rightarrow> screen" where
  "screen_run s [] = s"
| "screen_run s (e # es) = screen_run (screen_step s e) es"

text \<open>What the screen shows in a state: the render applied to the four hooks' formatted balances.\<close>

definition screen_view :: "env \<Rightarrow> screen \<Rightarrow> view_node list" where
  "screen_view e s = SignedInScreen e (session s) (evm_formatted (base s)) (evm_formatted (sepolia s))
                       (sol_formatted (sol_mainnet s)) (sol_formatted (sol_devnet s))"

text \<open>A session and a build configuration used by the concrete examples.\<close>

abbreviation demo_session :: session where
  "demo_session \<equiv> \<lparr>isSignedIn = True, evmAddress = Some ''0xab'', solanaAddress = Some ''So1''\<rparr>"

abbreviation demo_env :: env where
  "demo_env \<equiv> \<lparr>NEXT_PUBLIC_CDP_CREATE_SOLANA_ACCOUNT = Some ''true'', NEXT_PUBLIC_CDP_CREATE_ETHEREUM_ACCOUNT_TYPE = Some ''smart''\<rparr>"


text \<open>The event a hook instance sees of a screen event, if any.\<close>

definition local_event :: "balance_hook \<Rightarrow> screen_event \<Rightarrow> poll_event option" where
  "local_event h e = (case e of
      ScreenRender a \<Rightarrow> Some (case hook_args a h of (ad, p) \<Rightarrow> Render ad p)
    | ScreenUnmount \<Rightarrow> Some Unmount
    | Tick \<Rightarrow> Some Elapse
    | Resolve h' i r \<Rightarrow> (if h' = h then Some (Settle i r) else None)
    | Callback h' \<Rightarrow> (if h' = h then Some Refresh else None))"

definition hook_settle :: "balance_hook \<Rightarrow> bool \<Rightarrow> fetch_result \<Rightarrow> poller \<Rightarrow> poller" where
  "hook_settle h = (case h of
      BaseBalance \<Rightarrow> evm_settle | SepoliaBalance \<Rightarrow> evm_settle
    | SolanaMainnetBalance \<Rightarrow> sol_settle | SolanaDevnetBalance \<Rightarrow> sol_settle)"

text \<open>A widget element: an element with an \<open>onSuccess\<close> callback.\<close>

fun is_widget :: "view_node \<Rightarrow> bool" where
  "is_widget (FundWallet _ _ _ _) = True"
| "is_widget (EVMTransaction _ _ _) = True"
| "is_widget (SolanaTransaction _) = True"
| "is_widget _ = False"

text \<open>A hook instance with polling off that has never been asked to fetch.\<close>

definition idle :: "poller \<Rightarrow> bool" where
  "idle p \<longleftrightarrow> \<not> poll p \<and> timer p = None \<and> inflight p = [] \<and> calls p = [] \<and> balance p = None"

text \<open>Every hook instance was last rendered with the session's address.\<close>

definition synced :: "screen \<Rightarrow> bool" where
  "synced s \<longleftrightarrow> list_all (\<lambda>h. address (get_hook s h) = fst (hook_args (session s) h)) all_hooks"

subsection \<open>Each hook instance evolves by its own events\<close>

lemma get_hook_hook_step [simp]:
  "get_hook (hook_step h ev s) h' = (if h' = h then hook h (get_hook s h) ev else get_hook s h')"
  by (cases h; cases h') (simp_all add: hook_step_def get_hook_def)

lemma session_hook_step [simp]: "session (hook_step h ev s) = session s"
  by (cases h) (simp_all add: hook_step_def)

lemma get_hook_session_update [simp]: "get_hook (s\<lparr>session := a\<rparr>) h = get_hook s h"
  by (cases h) (simp_all add: get_hook_def)

lemma get_hook_fold:
  "get_hook (fold (\<lambda>h. hook_step h (f h)) all_hooks s) h' = hook h' (get_hook s h') (f h')"
  by (cases h') (simp_all add: all_hooks_def)

lemma session_fold: "session (fold (\<lambda>h. hook_step h (f h)) hs s) = session s"
  by (induction hs arbitrary: s) simp_all

lemma hook_poller_step: "hook h = poller_step (hook_settle h)"
  by (cases h) (simp_all add: hook_def hook_settle_def useEvmBalance_def useSolanaBalance_def)

lemma hook_settle_frame [intro, simp]: "settle_frame (hook_settle h)"
  by (cases h) (simp_all add: hook_settle_def evm_settle_frame sol_settle_frame)

lemma screen_step_hook:
  "get_hook (screen_step s e) h =
     (case local_event h e of None \<Rightarrow> get_hook s h | Some ev \<Rightarrow> hook h (get_hook s h) ev)"
  by (cases e) (simp_all add: local_event_def screen_render_def get_hook_fold split: prod.splits)

lemma screen_step_session:
  "session (screen_step s e) = (case e of ScreenRender a \<Rightarrow> a | _ \<Rightarrow> session s)"
  by (cases e) (simp_all add: screen_render_def session_fold)

lemma screen_run_hook:
  "get_hook (screen_run s es) h =
     poller_run (hook_settle h) (get_hook s h) (List.map_filter (local_event h) es)"
  by (induction es arbitrary: s)
     (simp_all add: screen_step_hook map_filter_simps hook_poller_step split: option.splits)

lemma screen_run_append: "screen_run s (xs @ ys) = screen_run (screen_run s xs) ys"
  by (induction xs arbitrary: s) simp_all


subsection \<open>A hook instance with polling off stays idle until a callback\<close>

lemma idle_step:
  assumes "idle p" "case ev of Refresh \<Rightarrow> False | Render a q \<Rightarrow> \<not> q | _ \<Rightarrow> True"
  shows "idle (poller_step h p ev)"
proof (cases ev)
  case (Render a q)
  then show ?thesis using assms
    by (simp add: render_def run_effect_def cleanup_def idle_def)
next
  case (Settle i r)
  then show ?thesis using assms by (simp add: settle_def find_request_def idle_def)
qed (use assms in \<open>simp_all add: unmount_def cleanup_def elapse_def idle_def\<close>)

lemma idle_run:
  "idle p \<Longrightarrow> list_all (\<lambda>ev. case ev of Refresh \<Rightarrow> False | Render a q \<Rightarrow> \<not> q | _ \<Rightarrow> True) evs \<Longrightarrow>
   idle (poller_run h p evs)"
  by (induction evs arbitrary: p) (simp_all add: idle_step)

lemma mainnet_local_events:
  "Callback SolanaMainnetBalance \<notin> set es \<Longrightarrow>
   list_all (\<lambda>ev. case ev of Refresh \<Rightarrow> False | Render a q \<Rightarrow> \<not> q | _ \<Rightarrow> True)
     (List.map_filter (local_event SolanaMainnetBalance) es)"
proof (induction es)
  case (Cons e es)
  then show ?case
    by (cases e) (auto simp: map_filter_simps local_event_def hook_args_def)
qed (simp add: map_filter_simps)

lemma idle_init: "idle init_poller"
  by (simp add: idle_def init_poller_def)

subsection \<open>The hook instances follow the session's addresses\<close>

lemma address_run_effect [simp]: "address (run_effect s) = address s"
  by (simp add: run_effect_def)

lemma address_render [simp]: "address (render a p s) = a"
  by (simp add: render_def cleanup_def)

lemma address_poller_step:
  assumes "settle_frame h"
  shows "address (poller_step h p ev) = (case ev of Render a q \<Rightarrow> a | _ \<Rightarrow> address p)"
proof (cases ev)
  case (Settle i r)
  then show ?thesis using settle_frameD [OF assms]
    by (simp add: settle_def split: option.splits)
qed (simp_all add: unmount_def cleanup_def elapse_def split: option.splits)


lemma address_hook: "address (hook h p ev) = (case ev of Render a q \<Rightarrow> a | _ \<Rightarrow> address p)"
  unfolding hook_poller_step by (rule address_poller_step) simp

lemma all_hooks_complete [simp]: "h \<in> set all_hooks"
  by (cases h) (simp_all add: all_hooks_def)

lemma synced_iff: "synced s \<longleftrightarrow> (\<forall>h. address (get_hook s h) = fst (hook_args (session s) h))"
  unfolding synced_def list_all_iff using all_hooks_complete by blast

lemma synced_init: "synced init_screen"
  unfolding synced_iff
proof
  fix h show "address (get_hook init_screen h) = fst (hook_args (session init_screen) h)"
    by (cases h) (simp_all add: get_hook_def hook_args_def init_screen_def init_poller_def)
qed

lemma synced_step: "synced s \<Longrightarrow> synced (screen_step s e)"
  unfolding synced_iff
proof
  fix h assume "\<forall>h. address (get_hook s h) = fst (hook_args (session s) h)"
  then have a: "address (get_hook s h) = fst (hook_args (session s) h)" by blast
  show "address (get_hook (screen_step s e) h) = fst (hook_args (session (screen_step s e)) h)"
    using a by (cases e) (auto simp del: screen_step.simps
                               simp add: screen_step_hook screen_step_session local_event_def
                                         address_hook split: prod.splits)
qed

lemma synced_run: "synced s \<Longrightarrow> synced (screen_run s es)"
  by (induction es arbitrary: s) (simp_all add: synced_step)

lemma get_hook_init [simp]: "get_hook init_screen h = init_poller"
  by (cases h) (simp_all add: get_hook_def init_screen_def)

subsection \<open>What the render shows\<close>

lemma widgets_UserBalance [simp]: "filter is_widget (UserBalance e b u n) = []"
  by (simp add: UserBalance_def Let_def split: option.splits)

lemma widget_not_in_UserBalance [simp]:
  "FundWallet h n c d \<notin> set (UserBalance e b u f)"
  "EVMTransaction p x h \<notin> set (UserBalance e b u f)"
  "SolanaTransaction h \<notin> set (UserBalance e b u f)"
  by (simp_all add: UserBalance_def Let_def split: option.splits)

lemma FundWallet_in_screen:
  "FundWallet h n c d \<in> set (SignedInScreen e a f1 f2 f3 f4) \<longleftrightarrow> isSignedIn a \<and>
     ((h = BaseBalance \<and> n = ''base'' \<and> c = ''eth'' \<and> evmAddress a = Some d \<and> d \<noteq> []) \<or>
      (h = SolanaMainnetBalance \<and> n = ''solana'' \<and> c = ''sol'' \<and> solanaAddress a = Some d \<and> d \<noteq> []))"
  by (cases "evmAddress a"; cases "solanaAddress a")
     (auto simp: SignedInScreen_def)

lemma refresh_calls:
  assumes "address p = Some d" "d \<noteq> []"
  shows "calls (hook h p Refresh) = calls p @ [d]"
  using assms by (simp add: hook_poller_step get_balance_truthy)


lemma mainnet_idle:
  assumes "Callback SolanaMainnetBalance \<notin> set es"
  shows "idle (sol_mainnet (screen_run init_screen es))"
proof -
  have "sol_mainnet (screen_run init_screen es) =
          poller_run (hook_settle SolanaMainnetBalance) init_poller
            (List.map_filter (local_event SolanaMainnetBalance) es)"
    using screen_run_hook [of init_screen es SolanaMainnetBalance] by (simp add: get_hook_def init_screen_def)
  then show ?thesis using idle_run [OF idle_init mainnet_local_events [OF assms]] by simp
qed

lemma mainnet_section_loading:
  assumes "truthy (solanaAddress a)"
  shows "\<exists>p q. SignedInScreen e a f1 f2 None f4 =
           p @ [PageHeading ''Fund your Solana wallet on Mainnet'', CardTitle ''Available balance'',
                LoadingSkeleton] @ q"
proof -
  define p where "p = [Header] @
     (if truthy (evmAddress a) then
        [PageHeading ''Fund your EVM wallet on Base''] @ UserBalance e f1 None None @
        (if isSignedIn a then [FundWallet BaseBalance ''base'' ''eth'' (the (evmAddress a))] else []) @
        [PageDivider, PageHeading ''Send an EVM transaction on Base Sepolia''] @
        UserBalance e f2 (Some ''https://portal.cdp.coinbase.com/products/faucet'') (Some ''Base Sepolia Faucet'') @
        (if isSignedIn a then [EVMTransaction (getEVMComponentPath e) f2 SepoliaBalance] else [])
      else []) @
     (if truthy (evmAddress a) then [PageDivider] else [])"
  define q where "q =
        (if isSignedIn a then [FundWallet SolanaMainnetBalance ''solana'' ''sol'' (the (solanaAddress a))] else []) @
        [PageDivider, PageHeading ''Send a Solana transaction on Devnet''] @
        UserBalance e f4 (Some ''https://portal.cdp.coinbase.com/products/faucet?network=solana-devnet'')
          (Some ''Solana Devnet Faucet'') @
        (if isSignedIn a then [SolanaTransaction SolanaDevnetBalance] else [])"
  have "SignedInScreen e a f1 f2 None f4 =
          p @ [PageHeading ''Fund your Solana wallet on Mainnet'', CardTitle ''Available balance'',
               LoadingSkeleton] @ q"
    using assms unfolding SignedInScreen_def p_def q_def by (simp add: UserBalance_def)
  then show ?thesis by blast
qed

subsection \<open>Properties of the screen\<close>

text \<open>
  C16.  In every reachable state each hook instance was last rendered with the address of
  its chain (lines 142--149): the Base and Base Sepolia hooks with the session's EVM
  address, the Solana mainnet and devnet hooks with its Solana address.
\<close>

theorem hooks_follow_session:
  "address (base (screen_run init_screen es)) = evmAddress (session (screen_run init_screen es)) \<and>
   address (sepolia (screen_run init_screen es)) = evmAddress (session (screen_run init_screen es)) \<and>
   address (sol_mainnet (screen_run init_screen es)) = solanaAddress (session (screen_run init_screen es)) \<and>
   address (sol_devnet (screen_run init_screen es)) = solanaAddress (session (screen_run init_screen es))"
proof -
  have "\<forall>h. address (get_hook (screen_run init_screen es) h) =
            fst (hook_args (session (screen_run init_screen es)) h)"
    using synced_run [OF synced_init, of es] by (simp add: synced_iff)
  note a = this [rule_format]
  show ?thesis
    using a [of BaseBalance] a [of SepoliaBalance] a [of SolanaMainnetBalance] a [of SolanaDevnetBalance]
    by (simp add: get_hook_def hook_args_def)
qed

text \<open>
  C17.  The \<open>onSuccess\<close> of a funding widget on the screen refreshes the balance of the
  address it funds: calling it makes the hook instance shown beside it issue one network call,
  for the widget's \<open>destinationAddress\<close>.
\<close>

theorem fund_success_refetches:
  assumes "FundWallet h n c d \<in> set (SignedInScreen e (session (screen_run init_screen es)) f1 f2 f3 f4)"
  shows "calls (get_hook (screen_step (screen_run init_screen es) (Callback h)) h) =
         calls (get_hook (screen_run init_screen es) h) @ [d]"
proof -
  define s where "s = screen_run init_screen es"
  have sy: "address (get_hook s h) = fst (hook_args (session s) h)"
    using synced_run [OF synced_init, of es] by (simp add: synced_iff s_def)
  have "address (get_hook s h) = Some d" "d \<noteq> []"
    using assms sy by (auto simp: FundWallet_in_screen hook_args_def s_def)
  then have "calls (hook h (get_hook s h) Refresh) = calls (get_hook s h) @ [d]"
    by (rule refresh_calls)
  then show ?thesis
    by (simp del: screen_step.simps add: screen_step_hook local_event_def s_def)
qed

text \<open>
  C18.  The widgets the screen shows and the callbacks they carry: signed in with an EVM
  address, the Base funding widget refreshes the Base balance and the transaction widget
  (SmartAccount or EOA per \<open>getEVMComponentPath\<close>) receives and refreshes the Base Sepolia
  balance; signed in with a Solana address, the mainnet funding widget refreshes the mainnet
  balance and the Solana transaction widget the devnet balance.  Signed out, no widget.
\<close>

theorem widgets_bound:
  "filter is_widget (SignedInScreen e a f1 f2 f3 f4) =
     (if isSignedIn a \<and> truthy (evmAddress a)
      then [FundWallet BaseBalance ''base'' ''eth'' (the (evmAddress a)),
            EVMTransaction (getEVMComponentPath e) f2 SepoliaBalance] else []) @
     (if isSignedIn a \<and> truthy (solanaAddress a)
      then [FundWallet SolanaMainnetBalance ''solana'' ''sol'' (the (solanaAddress a)),
            SolanaTransaction SolanaDevnetBalance] else [])"
  by (simp add: SignedInScreen_def)

text \<open>
  C19.  The Solana mainnet hook is called without \<open>poll\<close> (line 147), so it never
  fetches on its own: as long as the mainnet funding widget's \<open>onSuccess\<close> has not been
  called it has made no network call and its balance is undefined.
\<close>

theorem mainnet_never_fetches:
  assumes "Callback SolanaMainnetBalance \<notin> set es"
  shows "calls (sol_mainnet (screen_run init_screen es)) = [] \<and>
         balance (sol_mainnet (screen_run init_screen es)) = None"
  using mainnet_idle [OF assms] by (simp add: idle_def)

text \<open>
  C20.  Consequently, with a Solana address, the mainnet section of the screen shows the
  loading skeleton in place of a balance until a mainnet funding succeeds.
\<close>

theorem mainnet_shows_loading:
  assumes "Callback SolanaMainnetBalance \<notin> set es"
    and "truthy (solanaAddress (session (screen_run init_screen es)))"
  shows "\<exists>p q. screen_view e (screen_run init_screen es) =
           p @ [PageHeading ''Fund your Solana wallet on Mainnet'', CardTitle ''Available balance'',
                LoadingSkeleton] @ q"
proof -
  define s where "s = screen_run init_screen es"
  have "sol_formatted (sol_mainnet s) = None"
    using mainnet_idle [OF assms(1)] by (simp add: idle_def sol_formatted_def s_def)
  then show ?thesis
    using mainnet_section_loading [OF assms(2)] by (simp add: screen_view_def s_def)
qed

text \<open>
  C21.  \<open>UserBalance\<close> chooses its icon and label from the build flag
  \<open>NEXT_PUBLIC_CDP_CREATE_SOLANA_ACCOUNT\<close>, not from the section it is in: when the
  flag is set, the Base (ETH) balance is shown with the Solana icon and the label
  \<open>Solana\<close>.
\<close>

theorem evm_section_sol_icon:
  assumes "truthy (NEXT_PUBLIC_CDP_CREATE_SOLANA_ACCOUNT e)" "truthy (evmAddress a)"
  shows "BalanceLine ''/sol.svg'' b ''Solana'' \<in> set (SignedInScreen e a (Some b) f2 f3 f4)"
  using assms by (simp add: SignedInScreen_def UserBalance_def)

text \<open>
  C22.  \<open>UserBalance\<close> shows the loading skeleton exactly when the balance is undefined,
  and otherwise the balance string with the icon and label of the flag's chain.
\<close>

theorem user_balance_amount:
  "(LoadingSkeleton \<in> set (UserBalance e bal u n) \<longleftrightarrow> bal = None) \<and>
   (BalanceLine i b l \<in> set (UserBalance e bal u n) \<longleftrightarrow>
      bal = Some b \<and>
      i = (if truthy (NEXT_PUBLIC_CDP_CREATE_SOLANA_ACCOUNT e) then ''/sol.svg'' else ''/eth.svg'') \<and>
      l = (if truthy (NEXT_PUBLIC_CDP_CREATE_SOLANA_ACCOUNT e) then ''Solana'' else ''Ethereum''))"
  by (cases bal) (auto simp: UserBalance_def Let_def)

text \<open>
  C23.  The faucet link is shown exactly when both \<open>faucetUrl\<close> and \<open>faucetName\<close>
  are non-empty strings, with that URL and name.
\<close>

theorem user_balance_faucet:
  "(FaucetLine c url name \<in> set (UserBalance e bal u n)) \<longleftrightarrow>
     u = Some url \<and> n = Some name \<and> url \<noteq> [] \<and> name \<noteq> [] \<and>
     c = (if truthy (NEXT_PUBLIC_CDP_CREATE_SOLANA_ACCOUNT e) then ''SOL'' else ''ETH'')"
  by (cases u; cases n) (auto simp: UserBalance_def Let_def split: option.splits)


subsection \<open>Witnesses\<close>

lemma demo_screen_facts:
  "session (screen_run init_screen [ScreenRender demo_session]) = demo_session"
  "screen_view demo_env (screen_run init_screen [ScreenRender demo_session]) =
     SignedInScreen demo_env demo_session None None None None"
  by (simp_all add: screen_render_def session_fold all_hooks_def screen_view_def sol_formatted_def
                    evm_formatted_def hook_def useEvmBalance_def useSolanaBalance_def render_def
                    run_effect_def get_balance_def init_screen_def init_poller_def hook_args_def
                    hook_step_def)

theorem fund_success_refetches_witness:
  "FundWallet BaseBalance ''base'' ''eth'' ''0xab'' \<in>
     set (SignedInScreen demo_env (session (screen_run init_screen [ScreenRender demo_session])) None None None None) \<and>
   calls (get_hook (screen_step (screen_run init_screen [ScreenRender demo_session]) (Callback BaseBalance)) BaseBalance) =
     calls (get_hook (screen_run init_screen [ScreenRender demo_session]) BaseBalance) @ [''0xab'']"
proof -
  have h: "FundWallet BaseBalance ''base'' ''eth'' ''0xab'' \<in>
             set (SignedInScreen demo_env (session (screen_run init_screen [ScreenRender demo_session])) None None None None)"
    unfolding demo_screen_facts by (simp add: SignedInScreen_def)
  show ?thesis using h fund_success_refetches [OF h] by blast
qed

theorem mainnet_never_fetches_witness:
  "Callback SolanaMainnetBalance \<notin> set [ScreenRender demo_session, Tick, Callback SolanaDevnetBalance] \<and>
   calls (sol_mainnet (screen_run init_screen [ScreenRender demo_session, Tick, Callback SolanaDevnetBalance])) = [] \<and>
   balance (sol_mainnet (screen_run init_screen [ScreenRender demo_session, Tick, Callback SolanaDevnetBalance])) = None"
proof -
  have h: "Callback SolanaMainnetBalance \<notin> set [ScreenRender demo_session, Tick, Callback SolanaDevnetBalance]"
    by simp
  show ?thesis using h mainnet_never_fetches [OF h] by blast
qed

theorem mainnet_shows_loading_witness:
  "Callback SolanaMainnetBalance \<notin> set [ScreenRender demo_session] \<and>
   truthy (solanaAddress (session (screen_run init_screen [ScreenRender demo_session]))) \<and>
   (\<exists>p q. screen_view demo_env (screen_run init_screen [ScreenRender demo_session]) =
      p @ [PageHeading ''Fund your Solana wallet on Mainnet'', CardTitle ''Available balance'',
           LoadingSkeleton] @ q)"
proof -
  have h1: "Callback SolanaMainnetBalance \<notin> set [ScreenRender demo_session]" by simp
  have h2: "truthy (solanaAddress (session (screen_run init_screen [ScreenRender demo_session])))"
    unfolding demo_screen_facts by simp
  show ?thesis using h1 h2 mainnet_shows_loading [OF h1 h2] by blast
qed

theorem evm_section_sol_icon_witness:
  "truthy (NEXT_PUBLIC_CDP_CREATE_SOLANA_ACCOUNT demo_env) \<and> truthy (evmAddress demo_session) \<and>
   BalanceLine ''/sol.svg'' ''1.5'' ''Solana'' \<in> set (SignedInScreen demo_env demo_session (Some ''1.5'') None None None)"
proof -
  have h1: "truthy (NEXT_PUBLIC_CDP_CREATE_SOLANA_ACCOUNT demo_env)" by simp
  have h2: "truthy (evmAddress demo_session)" by simp
  show ?thesis using h1 h2 evm_section_sol_icon [OF h1 h2] by blast
qed

end
