(* ===== verification/App.thy ===== *)
theory App
  imports Screen
begin

text \<open>
  The two transaction widgets are \<open>React.lazy\<close> components (SignedInScreen.tsx lines 31--32)
  rendered inside \<open>Suspense\<close> boundaries whose fallback is the text
  \<open>Loading transaction component...\<close> (lines 185--190 and 228--230).  A lazy component's
  payload goes through React's states \<open>Uninitialized\<close>, \<open>Pending\<close> (its first render
  calls the \<open>import()\<close> factory), \<open>Resolved\<close> or \<open>Rejected\<close> (the import settles).
  A render meets a pending widget by showing the fallback, a resolved one by showing it, a
  rejected one by throwing; the screen has no error boundary, so the throw unmounts the whole
  tree, the four balance hooks included, and the root stays dead.  The application state is
  the screen of theory \<open>Screen\<close>, the two payloads, whether the screen is on display and
  whether the root crashed.
\<close>

datatype lazy_component = EVMTransactionComponent | SolanaTransactionComponent

datatype lazy_status = Uninitialized | Pending | Resolved | Rejected

datatype shown = Elem view_node | SuspenseFallback string

definition fallback :: shown where
  "fallback = SuspenseFallback ''Loading transaction component...''"

fun lazy_of :: "view_node \<Rightarrow> lazy_component option" where
  "lazy_of (EVMTransaction _ _ _) = Some EVMTransactionComponent"
| "lazy_of (SolanaTransaction _) = Some SolanaTransactionComponent"
| "lazy_of _ = None"

definition lazy_rendered :: "view_node list \<Rightarrow> lazy_component \<Rightarrow> bool" where
  "lazy_rendered v c = list_ex (\<lambda>n. lazy_of n = Some c) v"

text \<open>What React shows of a rendered element list; \<open>None\<close> is a render that throws.\<close>

fun suspend :: "(lazy_component \<Rightarrow> lazy_status) \<Rightarrow> view_node list \<Rightarrow> shown list option" where
  "suspend st [] = Some []"
| "suspend st (n # ns) = (case lazy_of n of
      None \<Rightarrow> map_option ((#) (Elem n)) (suspend st ns)
    | Some c \<Rightarrow> (case st c of
        Resolved \<Rightarrow> map_option ((#) (Elem n)) (suspend st ns)
      | Rejected \<Rightarrow> None
      | _ \<Rightarrow> map_option ((#) fallback) (suspend st ns)))"

text \<open>
  The render walks the elements in order: the first render of a lazy element calls its
  factory, and the walk stops at a rejected one, which throws.
\<close>

fun start_loads :: "(lazy_component \<Rightarrow> lazy_status) \<Rightarrow> view_node list \<Rightarrow> lazy_component \<Rightarrow> lazy_status" where
  "start_loads st [] = st"
| "start_loads st (n # ns) = (case lazy_of n of
      None \<Rightarrow> start_loads st ns
    | Some c \<Rightarrow> (case st c of
        Uninitialized \<Rightarrow> start_loads (st(c := Pending)) ns
      | Rejected \<Rightarrow> st
      | _ \<Rightarrow> start_loads st ns))"

record app =
  scr :: screen
  lazy :: "lazy_component \<Rightarrow> lazy_status"
  on_screen :: bool
  crashed :: bool

definition init_app :: app where
  "init_app = \<lparr>scr = init_screen, lazy = (\<lambda>_. Uninitialized), on_screen = False, crashed = False\<rparr>"

datatype app_event = AppEvent screen_event | LazySettle lazy_component bool

text \<open>
  A crash tears down the tree last committed: its hooks are unmounted, their intervals
  cleared.  After it the root never renders again; fetches in flight still settle.
\<close>

definition crash :: "app \<Rightarrow> app" where
  "crash st = st\<lparr>scr := screen_step (scr st) ScreenUnmount, on_screen := False, crashed := True\<rparr>"

fun app_step :: "env \<Rightarrow> app \<Rightarrow> app_event \<Rightarrow> app" where
  "app_step e st (AppEvent (ScreenRender a)) = (if crashed st then st else
     (let sc = screen_render a (scr st); v = screen_view e sc; lz = start_loads (lazy st) v in
      case suspend (lazy st) v of
        None \<Rightarrow> crash (st\<lparr>lazy := lz\<rparr>)
      | Some _ \<Rightarrow> st\<lparr>scr := sc, lazy := lz, on_screen := True\<rparr>))"
| "app_step e st (AppEvent ScreenUnmount) = (if crashed st then st
     else st\<lparr>scr := screen_step (scr st) ScreenUnmount, on_screen := False\<rparr>)"
| "app_step e st (AppEvent Tick) = (if crashed st then st else st\<lparr>scr := screen_step (scr st) Tick\<rparr>)"
| "app_step e st (AppEvent (Resolve h i r)) = st\<lparr>scr := screen_step (scr st) (Resolve h i r)\<rparr>"
| "app_step e st (AppEvent (Callback h)) = (if crashed st then st
     else st\<lparr>scr := screen_step (scr st) (Callback h)\<rparr>)"
| "app_step e st (LazySettle c ok) = (if lazy st c \<noteq> Pending then st
     else if ok then st\<lparr>lazy := (lazy st)(c := Resolved)\<rparr>
     else if on_screen st \<and> lazy_rendered (screen_view e (scr st)) c
     then crash (st\<lparr>lazy := (lazy st)(c := Rejected)\<rparr>)
     else st\<lparr>lazy := (lazy st)(c := Rejected)\<rparr>)"

fun app_run :: "env \<Rightarrow> app \<Rightarrow> app_event list \<Rightarrow> app" where
  "app_run e st [] = st"
| "app_run e st (ev # evs) = app_run e (app_step e st ev) evs"

text \<open>What the user sees: nothing when the screen is not on display or the root crashed.\<close>

definition app_display :: "env \<Rightarrow> app \<Rightarrow> shown list option" where
  "app_display e st = (if on_screen st then suspend (lazy st) (screen_view e (scr st)) else None)"

text \<open>
  The events that can happen: a widget's callback only while the widget is displayed, an
  import settles only while it is pending.
\<close>

fun callback_of :: "view_node \<Rightarrow> balance_hook option" where
  "callback_of (FundWallet h _ _ _) = Some h"
| "callback_of (EVMTransaction _ _ h) = Some h"
| "callback_of (SolanaTransaction h) = Some h"
| "callback_of _ = None"

definition enabled :: "env \<Rightarrow> app \<Rightarrow> app_event \<Rightarrow> bool" where
  "enabled e st ev = (case ev of
      AppEvent (Callback h) \<Rightarrow> (case app_display e st of
          None \<Rightarrow> False
        | Some d \<Rightarrow> list_ex (\<lambda>x. case x of Elem n \<Rightarrow> callback_of n = Some h | _ \<Rightarrow> False) d)
    | LazySettle c _ \<Rightarrow> lazy st c = Pending
    | _ \<Rightarrow> True)"

inductive app_reach :: "env \<Rightarrow> app \<Rightarrow> bool" for e where
  reach_init: "app_reach e init_app"
| reach_step: "app_reach e st \<Longrightarrow> enabled e st ev \<Longrightarrow> app_reach e (app_step e st ev)"

text \<open>Whether the session makes the screen render a widget: signed in with an address of its chain.\<close>

definition lazy_needed :: "session \<Rightarrow> lazy_component \<Rightarrow> bool" where
  "lazy_needed a c \<longleftrightarrow> isSignedIn a \<and>
     truthy (case c of EVMTransactionComponent \<Rightarrow> evmAddress a | SolanaTransactionComponent \<Rightarrow> solanaAddress a)"

text \<open>
  The invariant of the application: the hooks' invariant; a crashed root is off screen with
  every hook stopped; a screen on display has the import of each widget it renders pending
  or loaded.
\<close>

definition app_inv :: "env \<Rightarrow> app \<Rightarrow> bool" where
  "app_inv e st \<longleftrightarrow> (\<forall>h. poller_inv (get_hook (scr st) h)) \<and>
     (crashed st \<longrightarrow> \<not> on_screen st \<and> (\<forall>h. \<not> mounted (get_hook (scr st) h) \<and> timer (get_hook (scr st) h) = None)) \<and>
     (on_screen st \<longrightarrow> (\<forall>c. lazy_needed (session (scr st)) c \<longrightarrow> lazy st c = Pending \<or> lazy st c = Resolved))"

text \<open>The demonstration run: the first render signed in, then the EVM widget's import fails.\<close>

abbreviation demo_loaded :: app where
  "demo_loaded \<equiv> app_step demo_env init_app (AppEvent (ScreenRender demo_session))"

abbreviation demo_crashed :: app where
  "demo_crashed \<equiv> app_step demo_env demo_loaded (LazySettle EVMTransactionComponent False)"


subsection \<open>The lazy widgets in the render\<close>

lemma lazy_rendered_simps [simp]:
  "lazy_rendered [] c = False"
  "lazy_rendered (n # ns) c \<longleftrightarrow> lazy_of n = Some c \<or> lazy_rendered ns c"
  "lazy_rendered (xs @ ys) c \<longleftrightarrow> lazy_rendered xs c \<or> lazy_rendered ys c"
  by (simp_all add: lazy_rendered_def)

lemma lazy_rendered_UserBalance [simp]: "\<not> lazy_rendered (UserBalance e b u f) c"
  by (simp add: UserBalance_def Let_def split: option.splits)

lemma lazy_rendered_screen: "lazy_rendered (SignedInScreen e a f1 f2 f3 f4) c \<longleftrightarrow> lazy_needed a c"
  by (cases c) (simp_all add: SignedInScreen_def lazy_needed_def)

lemma lazy_rendered_view: "lazy_rendered (screen_view e s) c \<longleftrightarrow> lazy_needed (session s) c"
  by (simp add: screen_view_def lazy_rendered_screen)

lemma suspend_None: "suspend st v = None \<longleftrightarrow> (\<exists>c. lazy_rendered v c \<and> st c = Rejected)"
proof (induction v)
  case (Cons n ns)
  then show ?case by (cases "lazy_of n") (auto split: lazy_status.splits)
qed simp

lemma start_loads_ok:
  "(\<forall>c. lazy_rendered v c \<longrightarrow> st c \<noteq> Rejected) \<Longrightarrow>
   start_loads st v c = (if lazy_rendered v c \<and> st c = Uninitialized then Pending else st c)"
proof (induction v arbitrary: st)
  case (Cons n ns)
  then show ?case by (cases "lazy_of n") (auto split: lazy_status.splits)
qed simp

subsection \<open>The invariant of the application\<close>

lemma screen_step_inv:
  "(\<forall>h. poller_inv (get_hook s h)) \<Longrightarrow> poller_inv (get_hook (screen_step s ev) h)"
  by (simp del: screen_step.simps add: screen_step_hook hook_poller_step poller_step_inv split: option.splits)

lemma unmount_hook: "get_hook (screen_step s ScreenUnmount) h = unmount (get_hook s h)"
  by (simp del: screen_step.simps add: screen_step_hook local_event_def hook_poller_step)

lemma unmount_stopped: "poller_inv p \<Longrightarrow> \<not> mounted (unmount p) \<and> timer (unmount p) = None"
  by (auto simp: unmount_def cleanup_def poller_inv_def split: option.splits)

lemma unmount_calls [simp]: "calls (unmount p) = calls p"
  by (simp add: unmount_def cleanup_def)

lemma resolve_hook_fields:
  "mounted (get_hook (screen_step s (Resolve h i r)) h') = mounted (get_hook s h')"
  "timer (get_hook (screen_step s (Resolve h i r)) h') = timer (get_hook s h')"
  "calls (get_hook (screen_step s (Resolve h i r)) h') = calls (get_hook s h')"
  by (simp_all del: screen_step.simps add: screen_step_hook local_event_def hook_poller_step settle_def
                    settle_frameD split: option.splits)

lemma crash_inv: "\<forall>h. poller_inv (get_hook (scr st) h) \<Longrightarrow> app_inv e (crash st)"
  by (simp add: app_inv_def crash_def unmount_hook unmount_stopped unmount_inv
           del: screen_step.simps)

lemma app_inv_init: "app_inv e init_app"
  by (simp add: app_inv_def init_app_def poller_inv_init)

lemma app_inv_render:
  assumes inv: "app_inv e st" and nc: "\<not> crashed st"
  shows "app_inv e (app_step e st (AppEvent (ScreenRender a)))"
proof -
  define sc where "sc = screen_render a (scr st)"
  define v where "v = screen_view e sc"
  have hooks: "\<forall>h. poller_inv (get_hook sc h)"
    using inv screen_step_inv [of "scr st" "ScreenRender a"] by (simp add: app_inv_def sc_def)
  have ses: "session sc = a"
    using screen_step_session [of "scr st" "ScreenRender a"] by (simp add: sc_def)
  show ?thesis
  proof (cases "suspend (lazy st) v")
    case None
    then show ?thesis using nc inv crash_inv [of "st\<lparr>lazy := start_loads (lazy st) v\<rparr>" e]
      by (simp add: sc_def v_def Let_def app_inv_def)
  next
    case (Some d)
    then have nr: "\<forall>c. lazy_rendered v c \<longrightarrow> lazy st c \<noteq> Rejected"
      using suspend_None by (metis option.distinct(1))
    have "lazy_needed a c \<Longrightarrow> start_loads (lazy st) v c = Pending \<or> start_loads (lazy st) v c = Resolved" for c
      using nr start_loads_ok [OF nr, of c] lazy_rendered_view [of e sc c] ses
      by (cases "lazy st c") (simp_all add: v_def)
    then show ?thesis using Some nc hooks ses
      by (simp add: sc_def [symmetric] v_def [symmetric] Let_def app_inv_def)
  qed
qed

lemma app_inv_step: "app_inv e st \<Longrightarrow> app_inv e (app_step e st ev)"
proof (cases ev)
  case (AppEvent sev)
  assume inv: "app_inv e st"
  show ?thesis
  proof (cases "crashed st")
    case True
    then show ?thesis using inv AppEvent
      by (cases sev) (simp_all del: screen_step.simps add: app_inv_def resolve_hook_fields screen_step_inv)
  next
    case False
    then show ?thesis using inv AppEvent app_inv_render
      by (cases sev) (simp_all del: screen_step.simps add: app_inv_def screen_step_inv screen_step_session)
  qed
next
  case (LazySettle c ok)
  assume inv: "app_inv e st"
  then show ?thesis using LazySettle crash_inv [of "st\<lparr>lazy := (lazy st)(c := Rejected)\<rparr>" e]
    by (auto simp: app_inv_def lazy_rendered_view)
qed

lemma app_reach_inv: "app_reach e st \<Longrightarrow> app_inv e st"
  by (induction rule: app_reach.induct) (simp_all add: app_inv_init app_inv_step)

lemma crashed_stays: "crashed st \<Longrightarrow> crashed (app_step e st ev)"
proof (cases ev)
  case (AppEvent sev)
  assume "crashed st" then show ?thesis using AppEvent by (cases sev) simp_all
qed (simp add: crash_def Let_def)

lemma crashed_step_calls:
  assumes "crashed st" "\<not> on_screen st"
  shows "calls (get_hook (scr (app_step e st ev)) h) = calls (get_hook (scr st) h)"
proof (cases ev)
  case (AppEvent sev)
  then show ?thesis using assms
    by (cases sev) (simp_all del: screen_step.simps add: resolve_hook_fields)
qed (use assms in simp)

lemma settle_rejected_on_screen:
  "lazy st c = Pending \<Longrightarrow> on_screen st \<Longrightarrow> lazy_needed (session (scr st)) c \<Longrightarrow>
   app_step e st (LazySettle c False) = crash (st\<lparr>lazy := (lazy st)(c := Rejected)\<rparr>)"
  by (simp add: lazy_rendered_view)

subsection \<open>Properties of the application\<close>

text \<open>
  C24.  A crash is final: in a reachable state where the root crashed nothing is shown, every
  balance hook is unmounted with its interval cleared, and whatever happens next the root
  stays crashed and no hook makes another network call.
\<close>

theorem crash_is_final:
  assumes "app_reach e st" "crashed st"
  shows "app_display e st = None \<and>
         (\<forall>h. \<not> mounted (get_hook (scr st) h) \<and> timer (get_hook (scr st) h) = None) \<and>
         (\<forall>ev h. crashed (app_step e st ev) \<and>
                 calls (get_hook (scr (app_step e st ev)) h) = calls (get_hook (scr st) h))"
proof -
  have inv: "app_inv e st" by (rule app_reach_inv [OF assms(1)])
  then have off: "\<not> on_screen st" using assms(2) by (simp add: app_inv_def)
  show ?thesis
    using inv assms(2) off crashed_stays [OF assms(2)] crashed_step_calls [OF assms(2) off]
    by (simp add: app_display_def app_inv_def)
qed

text \<open>
  C25.  The screen has no error boundary: a failed import of a transaction widget takes the
  whole screen down exactly when the render shows that widget, that is signed in with an
  address of its chain (lines 155, 184, 197 and 227); otherwise the failure is only recorded.
\<close>

theorem import_failure_crashes:
  assumes "app_reach e st" "on_screen st" "lazy st c = Pending"
  shows "crashed (app_step e st (LazySettle c False)) \<longleftrightarrow>
         isSignedIn (session (scr st)) \<and>
         truthy (case c of EVMTransactionComponent \<Rightarrow> evmAddress (session (scr st))
                         | SolanaTransactionComponent \<Rightarrow> solanaAddress (session (scr st)))"
proof -
  have nc: "\<not> crashed st" using app_reach_inv [OF assms(1)] assms(2) by (auto simp: app_inv_def)
  show ?thesis using nc assms(2,3) by (simp add: lazy_rendered_view lazy_needed_def crash_def)
qed

subsection \<open>Witnesses\<close>

lemma demo_needed: "lazy_needed demo_session c"
  by (cases c) (simp_all add: lazy_needed_def)

lemma demo_app_render:
  "scr demo_loaded = screen_run init_screen [ScreenRender demo_session] \<and> on_screen demo_loaded \<and>
   \<not> crashed demo_loaded \<and> lazy demo_loaded = (\<lambda>_. Pending)"
proof -
  define v where "v = screen_view demo_env (screen_render demo_session init_screen)"
  have ses: "session (screen_render demo_session init_screen) = demo_session"
    using screen_step_session [of init_screen "ScreenRender demo_session"] by simp
  have "suspend (\<lambda>_. Uninitialized) v \<noteq> None" by (simp add: suspend_None)
  then obtain d where d: "suspend (\<lambda>_. Uninitialized) v = Some d" by blast
  have "start_loads (\<lambda>_. Uninitialized) v c = Pending" for c
    using start_loads_ok [of v "\<lambda>_. Uninitialized" c] by (simp add: v_def lazy_rendered_view ses demo_needed)
  then have "start_loads (\<lambda>_. Uninitialized) v = (\<lambda>_. Pending)" by (rule ext)
  then show ?thesis using d by (simp add: init_app_def Let_def v_def [symmetric])
qed

lemma demo_reach: "app_reach demo_env demo_loaded" "app_reach demo_env demo_crashed"
proof -
  show r: "app_reach demo_env demo_loaded"
    by (rule reach_step [OF reach_init]) (simp add: enabled_def)
  show "app_reach demo_env demo_crashed"
    by (rule reach_step [OF r]) (simp del: app_step.simps add: enabled_def demo_app_render)
qed

lemma demo_crashed_facts: "crashed demo_crashed"
proof -
  have "lazy_needed (session (scr demo_loaded)) EVMTransactionComponent"
    using demo_app_render demo_screen_facts(1) demo_needed by simp
  then show ?thesis using demo_app_render settle_rejected_on_screen [of demo_loaded EVMTransactionComponent]
    by (simp add: crash_def del: app_step.simps)
qed

theorem crash_is_final_witness:
  "app_reach demo_env demo_crashed \<and> crashed demo_crashed \<and> app_display demo_env demo_crashed = None \<and>
   (\<forall>h. \<not> mounted (get_hook (scr demo_crashed) h) \<and> timer (get_hook (scr demo_crashed) h) = None) \<and>
   (\<forall>ev h. crashed (app_step demo_env demo_crashed ev) \<and>
      calls (get_hook (scr (app_step demo_env demo_crashed ev)) h) = calls (get_hook (scr demo_crashed) h))"
proof -
  have h1: "app_reach demo_env demo_crashed" by (rule demo_reach(2))
  have h2: "crashed demo_crashed" by (rule demo_crashed_facts)
  show ?thesis using h1 h2 crash_is_final [OF h1 h2] by blast
qed

theorem import_failure_crashes_witness:
  "app_reach demo_env demo_loaded \<and> on_screen demo_loaded \<and> lazy demo_loaded EVMTransactionComponent = Pending \<and>
   (crashed demo_crashed \<longleftrightarrow>
      isSignedIn (session (scr demo_loaded)) \<and>
      truthy (case EVMTransactionComponent of EVMTransactionComponent \<Rightarrow> evmAddress (session (scr demo_loaded))
                | SolanaTransactionComponent \<Rightarrow> solanaAddress (session (scr demo_loaded))))"
proof -
  have h1: "app_reach demo_env demo_loaded" by (rule demo_reach(1))
  have h2: "on_screen demo_loaded" using demo_app_render by blast
  have h3: "lazy demo_loaded EVMTransactionComponent = Pending" using demo_app_render by simp
  show ?thesis using h1 h2 h3 import_failure_crashes [OF h1 h2 h3] by blast
qed

end
