(* ===== verification/Clients.thy ===== *)
theory Clients
  imports Screen
begin

text \<open>
  The module-level RPC clients of SignedInScreen.tsx (lines 37--58) and the client each hook
  instance is called with (lines 142--149).  A viem public client is its chain and its
  transport; \<open>http()\<close> without a URL uses the chain's default RPC URL.  A Solana
  \<open>Connection\<close> is its endpoint URL, obtained from \<open>clusterApiUrl\<close> of
  @solana/web3.js, which throws on an unknown cluster name (a \<open>None\<close> here).  The chains
  and \<open>clusterApiUrl\<close> are library code, modelled from their published definitions;
  viem's \<open>base\<close> is \<open>base_chain\<close> here, as \<open>base\<close> names a field of the screen.
\<close>

record chain =
  chain_id :: nat
  chain_name :: string
  default_rpc :: string

definition base_chain :: chain where
  "base_chain = \<lparr>chain_id = 8453, chain_name = ''Base'', default_rpc = ''https://mainnet.base.org''\<rparr>"

definition baseSepolia :: chain where
  "baseSepolia = \<lparr>chain_id = 84532, chain_name = ''Base Sepolia'', default_rpc = ''https://sepolia.base.org''\<rparr>"

datatype transport = Http "string option"

datatype rpc_client = PublicClient chain transport | Connection string

definition clusterApiUrl :: "string \<Rightarrow> string option" where
  "clusterApiUrl cluster =
     (if cluster = ''devnet'' then Some ''https://api.devnet.solana.com''
      else if cluster = ''testnet'' then Some ''https://api.testnet.solana.com''
      else if cluster = ''mainnet-beta'' then Some ''https://api.mainnet-beta.solana.com/''
      else None)"

definition client :: rpc_client where
  "client = PublicClient base_chain (Http None)"

definition sepoliaClient :: rpc_client where
  "sepoliaClient = PublicClient baseSepolia (Http None)"

definition solanaMainnetConnection :: "rpc_client option" where
  "solanaMainnetConnection = map_option Connection (clusterApiUrl ''mainnet-beta'')"

definition solanaDevnetConnection :: "rpc_client option" where
  "solanaDevnetConnection = map_option Connection (clusterApiUrl ''devnet'')"

text \<open>The client or connection passed to each hook instance; \<open>None\<close> if its construction threw.\<close>

definition hook_client :: "balance_hook \<Rightarrow> rpc_client option" where
  "hook_client h = (case h of
      BaseBalance \<Rightarrow> Some client
    | SepoliaBalance \<Rightarrow> Some sepoliaClient
    | SolanaMainnetBalance \<Rightarrow> solanaMainnetConnection
    | SolanaDevnetBalance \<Rightarrow> solanaDevnetConnection)"

fun endpoint :: "rpc_client \<Rightarrow> string" where
  "endpoint (PublicClient c (Http None)) = default_rpc c"
| "endpoint (PublicClient c (Http (Some u))) = u"
| "endpoint (Connection u) = u"

text \<open>An EVM hook receives a viem client, a Solana hook a connection (the parameter types of lines 62 and 90).\<close>

fun client_fits :: "balance_hook \<Rightarrow> rpc_client \<Rightarrow> bool" where
  "client_fits h (PublicClient _ _) = (h = BaseBalance \<or> h = SepoliaBalance)"
| "client_fits h (Connection _) = (h = SolanaMainnetBalance \<or> h = SolanaDevnetBalance)"

subsection \<open>Properties of the module's clients\<close>

lemma clients_constructed: "\<exists>c. hook_client h = Some c \<and> client_fits h c"
  by (cases h) (simp_all add: hook_client_def client_def sepoliaClient_def solanaMainnetConnection_def
                              solanaDevnetConnection_def clusterApiUrl_def)

lemma hook_endpoints:
  "map (map_option endpoint \<circ> hook_client) all_hooks =
     [Some ''https://mainnet.base.org'', Some ''https://sepolia.base.org'',
      Some ''https://api.mainnet-beta.solana.com/'', Some ''https://api.devnet.solana.com'']"
  by (simp add: all_hooks_def hook_client_def client_def sepoliaClient_def base_chain_def baseSepolia_def
                solanaMainnetConnection_def solanaDevnetConnection_def clusterApiUrl_def)

lemma hook_endpoints_distinct: "inj (map_option endpoint \<circ> hook_client)"
proof (rule injI)
  fix h h' assume "(map_option endpoint \<circ> hook_client) h = (map_option endpoint \<circ> hook_client) h'"
  then show "h = h'"
    by (cases h; cases h') (simp_all add: hook_client_def client_def sepoliaClient_def base_chain_def
          baseSepolia_def solanaMainnetConnection_def solanaDevnetConnection_def clusterApiUrl_def)
qed

end
