(* ===== verification/Spec2Isabelle.thy ===== *)
theory Spec2Isabelle
  imports App Clients
begin

text \<open>
  A verification library for the signed-in screen of devbambino/cdp-walls
  (src/src/components/SignedInScreen.tsx, and the \<open>UserBalance\<close> component whose source is
  src/unnamed/part_000).  The screen polls two balances per chain family and renders them.

  \<^bold>\<open>Parts of the program and their theories.\<close>
  \<^item> \<open>Decimal\<close>: JavaScript's integer \<open>toString\<close>, the regular-expression
    replacements \<open>/0+$/\<close> and \<open>/\.$/\<close> of \<open>formatSol\<close> (line 131), and
    \<open>parse_decimal\<close>, the reading of a decimal string as a rational number under which
    the specification's "denotes exactly" is stated.
  \<^item> \<open>JsNumber\<close>: the double arithmetic of the Solana path, modelled from IEEE 754 and
    ECMAScript: \<open>Number(bigint)\<close> (\<open>number_of_bigint\<close>, line 96), the division by an
    integral double (\<open>js_div\<close>, line 130), the JSON number of an RPC reply
    (\<open>json_number\<close>) and \<open>BigInt(number)\<close> with its \<open>RangeError\<close>
    (\<open>BigInt_of_number\<close>, line 103).  A finite double is sign, significand below
    \<open>2^53\<close> and exponent; every operation rounds the exact rational result to nearest,
    ties to even (\<open>round_double\<close>), and \<open>to_number\<close> turns a result of \<open>2^1024\<close>
    or more into \<open>Infinity\<close>.  The lemmas give the binade of a value, the rounding error
    (half a unit in the last place, at most \<open>2^-53\<close> of the value), exactness on
    integers below \<open>2^53\<close> and the overflow threshold.
  \<^item> \<open>ToFixed\<close>: \<open>Number.prototype.toFixed\<close> (line 130) with both branches: the
    fixed-point layout below \<open>10^21\<close> and, above, Number::toString in exponent notation
    with the shortest round-tripping digits (\<open>shortest_k\<close>, a loop over the digit count
    with a termination measure), which reads back to the same double.
  \<^item> \<open>FormatSol\<close>: \<open>formatSol\<close> itself (lines 128--132).  C1--C2: below
    \<open>2^23\<close> SOL the string shown is the exact nine-place decimal of \<open>balance / 10^9\<close>
    and denotes it exactly; C3: for every u64 balance the value shown is within
    \<open>5 * 10^-10\<close> plus \<open>2^-51\<close> of the exact amount.  The lemmas
    \<open>formatSol_inexact_2p53\<close> (\<open>2^53\<close> lamports show one unit of the ninth place
    too much) and \<open>formatSol_exponent_cut\<close> (the regex turns \<open>3e+30\<close> into
    \<open>3e+3\<close>) back two findings.
  \<^item> \<open>Poller\<close>: the hooks \<open>useEvmBalance\<close> and \<open>useSolanaBalance\<close> (lines 60--120)
    as one step function \<open>poller_step\<close> over the record \<open>poller\<close> of one hook instance
    (balance, hook arguments, mount generation, interval phase, requests in flight, and the
    logs of network calls, \<open>console.error\<close> calls and unhandled rejections).  Events are
    renders, unmount, one elapsed millisecond, a manual refresh (a widget's
    \<open>onSuccess\<close>) and the settlement of one request, in any interleaving.  The only
    difference of the hooks, the statement after the awaited call, is the handler
    parameter (\<open>evm_settle\<close>; \<open>sol_settle\<close>, which stores
    \<open>BigInt(lamports)\<close> of the reply's JSON number and zero when that throws);
    \<open>settle_frame\<close> and \<open>settle_guarded\<close> are the interface both satisfy.  C4 is
    the invariant \<open>poller_inv\<close> on every reachable state; C5--C13 are the address guard,
    the interval started without an address, the first fetch, the period, the refresh, the
    error path of each chain, last writer wins and the unmount of a reached state.
  \<^item> \<open>FormatUnits\<close>: viem's \<open>formatEther\<close> = \<open>formatUnits(value, 18)\<close>, library
    code modelled from the specification and viem's algorithm; \<open>formatUnits_parse\<close> is
    its round trip.  C14 lifts it to the EVM hook's \<open>formattedBalance\<close>
    (\<open>evm_formatted\<close>, in Poller) and C15 shows that string's canonical form.
  \<^item> \<open>Screen\<close>: \<open>UserBalance\<close> (part_000 lines 17--44), \<open>getEVMComponentPath\<close>
    (lines 21--29) and the render \<open>SignedInScreen\<close> (lines 137--239), each a function from
    its inputs to the list of elements shown; widget elements carry their props, the
    \<open>onSuccess\<close> callback named by the hook instance (\<open>balance_hook\<close>) whose
    \<open>getBalance\<close> it is.  The record \<open>screen\<close> holds the session and the four hook
    instances of lines 142--149 (\<open>hook_args\<close>: Base and Base Sepolia with
    \<open>poll = true\<close>, Solana mainnet with the default \<open>false\<close>, Solana devnet with
    \<open>true\<close>); \<open>screen_step\<close> takes renders, unmount, clock ticks, settlements and
    widget callbacks, and \<open>screen_view\<close> is what the screen shows.  Each hook instance
    sees its own events (\<open>screen_run_hook\<close>), so the Poller results apply to each.  C16:
    every instance follows the session's address of its chain; C17--C18 the callback
    wiring (a funding success re-fetches the funded address); C19--C20 that the mainnet
    instance never fetches on its own, so its section stays on the loading skeleton;
    C21--C23 the behaviour of \<open>UserBalance\<close>, whose icon and label follow a build flag
    rather than the section.
  \<^item> \<open>Clients\<close>: the module-level clients of lines 37--58 (\<open>client\<close>,
    \<open>sepoliaClient\<close>, \<open>solanaMainnetConnection\<close>, \<open>solanaDevnetConnection\<close>)
    as values naming chain and endpoint, viem's chains and web3.js's \<open>clusterApiUrl\<close>
    (which throws on an unknown cluster) modelled from the libraries, and
    \<open>hook_client\<close>, the client each hook instance of lines 142--149 is called with.  The
    lemmas show that the module's initialisation does not throw, that each hook receives a
    client of its parameter type, and that the four instances read four distinct endpoints.
  \<^item> \<open>App\<close>: the application around the screen: the two \<open>React.lazy\<close> widgets
    (lines 31--32) with React's payload states (\<open>lazy_status\<close>), the \<open>Suspense\<close>
    boundaries of lines 185--190 and 228--230 (\<open>suspend\<close>: pending shows the fallback,
    rejected throws), the imports started by the first render in document order
    (\<open>start_loads\<close>), and the React root (\<open>app_step\<close>, \<open>crash\<close>), React's
    semantics written out.  No error boundary encloses the screen in src; the page code
    around it is not in the repository, and its having none is an assumption of the model.
    \<open>app_reach\<close> is the inductive set of reachable states (callbacks only from displayed
    widgets), with the invariant \<open>app_inv\<close> proved by rule induction.  C24: after a
    crash nothing is shown and every hook is stopped for good; C25: a failed import crashes
    the screen exactly when the render shows the widget (signed in with an address of its
    chain).

  \<^bold>\<open>Bounds.\<close>  The exactness theorem holds below \<open>2^23 * 10^9\<close> lamports: there the
  quotient's binade has an exponent of at most \<open>-30\<close>, so its rounding error, at most
  \<open>2^-31\<close>, is below half of \<open>10^-9\<close>.  A u64 lamport count keeps the quotient below
  \<open>10^21\<close>, the threshold of \<open>toFixed\<close>'s exponent notation, and each of the two
  roundings costs at most \<open>2^-53\<close> of the value.  Concrete values are evaluated by
  \<open>simp\<close> with the collection \<open>eval_simps\<close>, the exponent of each double given to
  \<open>binade_eqI\<close>; the digit search is stepped one test at a time.

  \<^bold>\<open>Not modelled.\<close>  The wallet SDK hooks (\<open>useIsSignedIn\<close>, \<open>useEvmAddress\<close>,
  \<open>useSolanaAddress\<close>), the network behind the RPC clients and connections and the
  transaction and funding widgets are external collaborators: the model takes their results
  as inputs and shows the widgets as elements with their props; the content of the imported
  modules is not modelled, only whether their import resolves or rejects.  The synchronous
  \<open>new PublicKey(address)\<close> of line 102 is assumed not to throw.  Subnormal doubles are
  not modelled: the quotients formed are zero or at least \<open>10^-9\<close>.
\<close>

end
